theory Spec2Isabelle
  imports Main
begin

section \<open>Activity-to-operation reconciliation of the legacy case data\<close>

text \<open>
  The theory embeds the reconciliation code of \<^verbatim>\<open>scripts/import-case-data.js\<close>
  (class \<^verbatim>\<open>LegacyCaseDataSeeder\<close>, the full run) and of
  \<^verbatim>\<open>scripts/migrate-specific-activity.js\<close> (class \<^verbatim>\<open>SpecificActivityMigrator\<close>,
  one activity). The two classes share most method names; where the bodies differ the
  model takes the script as a parameter and follows the body of that script.

  Conventions of the embedding:
  \<^item> an identifier minted by \<^verbatim>\<open>uuidv4()\<close> is a natural number taken from a counter
    held in the store, so two calls never return the same identifier;
  \<^item> a legacy key is a natural number; a column or JSON field that may hold
    \<^verbatim>\<open>null\<close> is an \<open>option\<close>; the text of a \<^verbatim>\<open>legacy_id\<close> column and the
    \<^verbatim>\<open>toString()\<close> of a key are identified with the number they spell;
  \<^item> a JavaScript exception is the left injection of the result, and the store
    reached when it is thrown is returned with it (the rows written before stay written);
  \<^item> the target tables are lists of rows in insertion order, a \<^verbatim>\<open>SELECT\<close> is a
    \<open>filter\<close>, an \<^verbatim>\<open>UPDATE\<close> a \<open>map\<close>, an \<^verbatim>\<open>INSERT\<close> appends;
    time stamps and the constant columns are left out.
\<close>

subsection \<open>Values and records\<close>

type_synonym uuid = nat

datatype script = Seeder | Migrator

datatype error = TypeError | Error

text \<open>The values a legacy key takes inside the scripts.\<close>

datatype jsval = Undefined | Null | Num nat

fun truthy :: "jsval \<Rightarrow> bool" where
  "truthy (Num n) = (n \<noteq> 0)"
| "truthy Undefined = False"
| "truthy Null = False"

fun of_json :: "nat option \<Rightarrow> jsval" where
  "of_json None = Null"
| "of_json (Some n) = Num n"

text \<open>\<^verbatim>\<open>a || b\<close> on a JSON field \<open>a\<close>.\<close>

definition or_else :: "nat option \<Rightarrow> jsval \<Rightarrow> jsval" where
  "or_else a b = (if truthy (of_json a) then of_json a else b)"

record activity =
  ActivityID :: nat
  AccountID :: "nat option"
  TransactionType :: string
  Status :: int

record activity_detail =
  ActivityDetailID :: nat
  detail_ActivityID :: "nat option"
  ActivityType :: string
  CaseID :: "nat option"
  CaseDetailID :: "nat option"
  WineItemID :: "nat option"
  BottleSizeID :: "nat option"
  VintageID :: "nat option"
  Quantity :: int

record case_detail =
  legacy_case_detail_id :: nat
  legacy_case_id :: nat
  legacy_wine_item_id :: "nat option"
  legacy_bottle_size_id :: "nat option"
  legacy_vintage_id :: "nat option"
  WineQuantity :: "int option"

record legacy_data =
  activities :: "activity list"
  activityDetails :: "activity_detail list"
  caseDetails :: "case_detail list"

text \<open>Rows of the target store.\<close>

record lookup_row =
  row_id :: uuid
  row_tenant_id :: uuid
  row_legacy_id :: "nat option"

record wine =
  wine_id :: uuid
  wine_tenant_id :: uuid
  wine_legacy_id :: "nat option"
  wine_description :: string

record operation_group =
  og_id :: uuid
  og_tenant_id :: uuid
  og_customer_id :: uuid
  og_status :: "string option"

record case_operation =
  co_id :: uuid
  co_tenant_id :: uuid
  co_case_id :: uuid
  co_type :: "string option"
  co_status :: "string option"
  co_logs :: string
  co_group_id :: uuid

record wine_inventory_entry =
  wie_id :: uuid
  wie_tenant_id :: uuid
  wie_operation_id :: "uuid option"
  wie_wine_id :: uuid
  wie_bottle_format_id :: uuid
  wie_bottle_vintage_id :: uuid
  wie_amount :: int
  wie_case_id :: "uuid option"

text \<open>
  The store: the tables of the target database, the memoisation maps of the running
  object, and the counter behind \<^verbatim>\<open>uuidv4()\<close>.
\<close>

record store =
  users :: "lookup_row list"
  cases :: "lookup_row list"
  wines :: "wine list"
  wine_bottle_formats :: "lookup_row list"
  wine_bottle_vintages :: "lookup_row list"
  operations_groups :: "operation_group list"
  cases_operations :: "case_operation list"
  wine_inventory_entries :: "wine_inventory_entry list"
  customerIdMap :: "(nat option \<times> uuid) list"
  caseIdMap :: "nat \<rightharpoonup> uuid"
  wineMapId :: "jsval \<rightharpoonup> uuid"
  bottleFormatMapId :: "jsval \<rightharpoonup> uuid"
  bottleVintageMapId :: "jsval \<rightharpoonup> uuid"
  next_uuid :: nat

text \<open>What a run does not change: the script, the tenant and the loaded legacy data.\<close>

record env =
  script_of :: script
  defaultTenantId :: uuid
  legacyData :: legacy_data

definition uuidv4 :: "store \<Rightarrow> uuid \<times> store" where
  "uuidv4 s = (next_uuid s, s\<lparr>next_uuid := Suc (next_uuid s)\<rparr>)"

subsection \<open>Status and transaction type\<close>

text \<open>
  \<^verbatim>\<open>parseActivityStatus\<close>: a \<^verbatim>\<open>switch\<close> on the legacy status. The seeder has no
  default branch and returns \<^verbatim>\<open>undefined\<close> (here \<open>None\<close>); the migrator has
  \<^verbatim>\<open>default: return "pending"\<close>.
\<close>

definition parseActivityStatus :: "script \<Rightarrow> int \<Rightarrow> string option" where
  "parseActivityStatus sc status =
     (if status = 1 then Some ''processed''
      else if status = 2 then Some ''on_hold''
      else if status = 3 then Some ''confirmed''
      else if status = 4 then Some ''on_hold''
      else (case sc of Seeder \<Rightarrow> None | Migrator \<Rightarrow> Some ''pending''))"

definition parseActivityTransactionType :: "script \<Rightarrow> activity \<Rightarrow> string option" where
  "parseActivityTransactionType sc a =
     (if TransactionType a = ''D'' then Some ''deposit''
      else if TransactionType a = ''W'' then Some ''withdrawal''
      else (case sc of
              Seeder \<Rightarrow> None
            | Migrator \<Rightarrow> (if TransactionType a = ''T'' then Some ''transfer'' else Some ''other'')))"

subsection \<open>Inventory ledger writer\<close>

text \<open>
  The \<^verbatim>\<open>SELECT\<close> of \<^verbatim>\<open>createCaseOperationInventoryEntry\<close>: the entries of the tenant
  with the given operation, wine, bottle format and bottle vintage.
\<close>

definition ledger_key :: "uuid \<Rightarrow> uuid \<Rightarrow> uuid \<Rightarrow> uuid \<Rightarrow> uuid \<Rightarrow> wine_inventory_entry \<Rightarrow> bool" where
  "ledger_key t opid w f v e =
     (wie_tenant_id e = t \<and> wie_operation_id e = Some opid \<and> wie_wine_id e = w
      \<and> wie_bottle_format_id e = f \<and> wie_bottle_vintage_id e = v)"

definition select_entries :: "env \<Rightarrow> uuid \<Rightarrow> uuid \<Rightarrow> uuid \<Rightarrow> uuid \<Rightarrow> store \<Rightarrow> wine_inventory_entry list" where
  "select_entries E opid w f v s =
     filter (ledger_key (defaultTenantId E) opid w f v) (wine_inventory_entries s)"

text \<open>\<^verbatim>\<open>UPDATE wine_inventory_entries SET amount = $1 WHERE id = $2\<close>.\<close>

definition update_amount :: "int \<Rightarrow> uuid \<Rightarrow> wine_inventory_entry list \<Rightarrow> wine_inventory_entry list" where
  "update_amount n i es = map (\<lambda>e. if wie_id e = i then e\<lparr>wie_amount := n\<rparr> else e) es"

text \<open>The row of the \<^verbatim>\<open>INSERT INTO wine_inventory_entries\<close> of a posting.\<close>

definition new_entry :: "env \<Rightarrow> uuid \<Rightarrow> uuid \<Rightarrow> uuid \<Rightarrow> uuid \<Rightarrow> uuid \<Rightarrow> int \<Rightarrow> wine_inventory_entry" where
  "new_entry E entryId caseOperationId wineId bottleFormatId bottleVintageId amount =
     \<lparr>wie_id = entryId, wie_tenant_id = defaultTenantId E,
      wie_operation_id = Some caseOperationId, wie_wine_id = wineId,
      wie_bottle_format_id = bottleFormatId, wie_bottle_vintage_id = bottleVintageId,
      wie_amount = amount, wie_case_id = None\<rparr>"

definition createCaseOperationInventoryEntry ::
  "env \<Rightarrow> uuid \<Rightarrow> uuid \<Rightarrow> uuid \<Rightarrow> uuid \<Rightarrow> int \<Rightarrow> store \<Rightarrow> store" where
  "createCaseOperationInventoryEntry E caseOperationId wineId bottleFormatId bottleVintageId amount s =
     (case select_entries E caseOperationId wineId bottleFormatId bottleVintageId s of
        existing # _ \<Rightarrow>
          s\<lparr>wine_inventory_entries :=
              update_amount (wie_amount existing + amount) (wie_id existing) (wine_inventory_entries s)\<rparr>
      | [] \<Rightarrow>
          (case uuidv4 s of (wineInventoryEntryId, s1) \<Rightarrow>
             s1\<lparr>wine_inventory_entries := wine_inventory_entries s1 @
                  [new_entry E wineInventoryEntryId caseOperationId wineId bottleFormatId
                     bottleVintageId amount]\<rparr>))"

subsection \<open>Identity resolution\<close>

text \<open>
  \<^verbatim>\<open>Number.prototype.toString()\<close> and the string that \<^verbatim>\<open>+\<close> appends for a key.
\<close>

definition digit :: "nat \<Rightarrow> char" where
  "digit n = ''0123456789'' ! (n mod 10)"

fun toString :: "nat \<Rightarrow> string" where
  "toString n = (if n < 10 then [digit n] else toString (n div 10) @ [digit n])"

declare toString.simps [simp del]

fun js_to_string :: "jsval \<Rightarrow> string" where
  "js_to_string (Num n) = toString n"
| "js_to_string Null = ''null''"
| "js_to_string Undefined = ''undefined''"

datatype wine_prop = PropWineId | PropBottleFormatId | PropBottleVintageId

definition read_prop :: "wine_prop \<Rightarrow> case_detail \<Rightarrow> jsval" where
  "read_prop prop caseDetail =
     (case prop of
        PropWineId \<Rightarrow> of_json (legacy_wine_item_id caseDetail)
      | PropBottleFormatId \<Rightarrow> of_json (legacy_bottle_size_id caseDetail)
      | PropBottleVintageId \<Rightarrow> of_json (legacy_vintage_id caseDetail))"

text \<open>
  \<^verbatim>\<open>caseDetails.find((detail) => detail.legacy_case_detail_id == caseDetailId)\<close>:
  the first case detail with that key; a \<^verbatim>\<open>null\<close> key equals no number.
\<close>

definition find_case_detail :: "env \<Rightarrow> nat option \<Rightarrow> case_detail option" where
  "find_case_detail E caseDetailId =
     List.find (\<lambda>detail. Some (legacy_case_detail_id detail) = caseDetailId)
       (caseDetails (legacyData E))"

text \<open>
  \<^verbatim>\<open>getWinePropFromCaseDetail\<close>. The seeder returns \<^verbatim>\<open>undefined\<close> when the case
  detail is missing or its case has no target identifier; the migrator returns
  \<^verbatim>\<open>null\<close> when the case detail is missing and does not look at the case.
\<close>

definition getWinePropFromCaseDetail :: "env \<Rightarrow> nat option \<Rightarrow> wine_prop \<Rightarrow> store \<Rightarrow> jsval" where
  "getWinePropFromCaseDetail E caseDetailId prop s =
     (case script_of E of
        Seeder \<Rightarrow>
          (case find_case_detail E caseDetailId of
             None \<Rightarrow> Undefined
           | Some caseDetail \<Rightarrow>
               (case caseIdMap s (legacy_case_id caseDetail) of
                  None \<Rightarrow> Undefined
                | Some caseId \<Rightarrow> read_prop prop caseDetail))
      | Migrator \<Rightarrow>
          (case find_case_detail E caseDetailId of
             None \<Rightarrow> Null
           | Some caseDetail \<Rightarrow> read_prop prop caseDetail))"

text \<open>
  \<^verbatim>\<open>SELECT id FROM wines WHERE legacy_id = $1 AND tenant_id = $2\<close> and the same
  query on the bottle format and bottle vintage tables.
\<close>

definition select_wines :: "env \<Rightarrow> nat \<Rightarrow> store \<Rightarrow> wine list" where
  "select_wines E n s =
     filter (\<lambda>w. wine_legacy_id w = Some n \<and> wine_tenant_id w = defaultTenantId E) (wines s)"

definition select_rows :: "env \<Rightarrow> nat \<Rightarrow> lookup_row list \<Rightarrow> lookup_row list" where
  "select_rows E n rows =
     filter (\<lambda>r. row_legacy_id r = Some n \<and> row_tenant_id r = defaultTenantId E) rows"

text \<open>
  \<^verbatim>\<open>getNewWineId\<close>, \<^verbatim>\<open>getNewBottleFormatId\<close>, \<^verbatim>\<open>getNewBottleVintageId\<close>: the
  memoised value if the map has the key; otherwise \<^verbatim>\<open>legacyId.toString()\<close>, which
  throws on \<^verbatim>\<open>null\<close> and \<^verbatim>\<open>undefined\<close>, then the query; a hit is memoised, a
  miss returns \<^verbatim>\<open>null\<close> and memoises nothing.
\<close>

definition getNewWineId :: "env \<Rightarrow> jsval \<Rightarrow> store \<Rightarrow> (error + uuid option) \<times> store" where
  "getNewWineId E legacyWineId s =
     (case wineMapId s legacyWineId of
        Some wineId \<Rightarrow> (Inr (Some wineId), s)
      | None \<Rightarrow>
          (case legacyWineId of
             Num n \<Rightarrow>
               (case select_wines E n s of
                  [] \<Rightarrow> (Inr None, s)
                | wine # _ \<Rightarrow>
                    (Inr (Some (wine_id wine)),
                     s\<lparr>wineMapId := (wineMapId s)(legacyWineId \<mapsto> wine_id wine)\<rparr>))
           | _ \<Rightarrow> (Inl TypeError, s)))"

definition getNewBottleFormatId :: "env \<Rightarrow> jsval \<Rightarrow> store \<Rightarrow> (error + uuid option) \<times> store" where
  "getNewBottleFormatId E legacyBottleFormatId s =
     (case bottleFormatMapId s legacyBottleFormatId of
        Some bottleFormatId \<Rightarrow> (Inr (Some bottleFormatId), s)
      | None \<Rightarrow>
          (case legacyBottleFormatId of
             Num n \<Rightarrow>
               (case select_rows E n (wine_bottle_formats s) of
                  [] \<Rightarrow> (Inr None, s)
                | bottleFormat # _ \<Rightarrow>
                    (Inr (Some (row_id bottleFormat)),
                     s\<lparr>bottleFormatMapId :=
                         (bottleFormatMapId s)(legacyBottleFormatId \<mapsto> row_id bottleFormat)\<rparr>))
           | _ \<Rightarrow> (Inl TypeError, s)))"

definition getNewBottleVintageId :: "env \<Rightarrow> jsval \<Rightarrow> store \<Rightarrow> (error + uuid option) \<times> store" where
  "getNewBottleVintageId E legacyBottleVintageId s =
     (case bottleVintageMapId s legacyBottleVintageId of
        Some bottleVintageId \<Rightarrow> (Inr (Some bottleVintageId), s)
      | None \<Rightarrow>
          (case legacyBottleVintageId of
             Num n \<Rightarrow>
               (case select_rows E n (wine_bottle_vintages s) of
                  [] \<Rightarrow> (Inr None, s)
                | bottleVintage # _ \<Rightarrow>
                    (Inr (Some (row_id bottleVintage)),
                     s\<lparr>bottleVintageMapId :=
                         (bottleVintageMapId s)(legacyBottleVintageId \<mapsto> row_id bottleVintage)\<rparr>))
           | _ \<Rightarrow> (Inl TypeError, s)))"

text \<open>
  \<^verbatim>\<open>createNewWine\<close>. The value bound to \<^verbatim>\<open>$1\<close> is a number or SQL \<^verbatim>\<open>NULL\<close>,
  and \<^verbatim>\<open>legacy_id = NULL\<close> selects nothing. The seeder first looks for a wine with
  the legacy id and returns it; the migrator always inserts.
\<close>

fun sql_param :: "jsval \<Rightarrow> nat option" where
  "sql_param (Num n) = Some n"
| "sql_param Null = None"
| "sql_param Undefined = None"

definition insert_wine :: "env \<Rightarrow> jsval \<Rightarrow> string \<Rightarrow> store \<Rightarrow> uuid \<times> store" where
  "insert_wine E legacyWineId description s =
     (case uuidv4 s of (wineId, s1) \<Rightarrow>
        (wineId,
         s1\<lparr>wines := wines s1 @
              [\<lparr>wine_id = wineId, wine_tenant_id = defaultTenantId E,
                wine_legacy_id = sql_param legacyWineId, wine_description = description\<rparr>]\<rparr>))"

definition createNewWine :: "env \<Rightarrow> jsval \<Rightarrow> string \<Rightarrow> store \<Rightarrow> uuid \<times> store" where
  "createNewWine E legacyWineId description s =
     (case script_of E of
        Seeder \<Rightarrow>
          (case (case sql_param legacyWineId of None \<Rightarrow> [] | Some n \<Rightarrow> select_wines E n s) of
             wine # _ \<Rightarrow> (wine_id wine, s)
           | [] \<Rightarrow> insert_wine E legacyWineId description s)
      | Migrator \<Rightarrow> insert_wine E legacyWineId description s)"

subsection \<open>Validation of a line item\<close>

text \<open>
  The object \<^verbatim>\<open>{ newWineId, newBottleFormatId, newBottleVintageId }\<close>; a result of
  \<open>None\<close> is \<^verbatim>\<open>undefined\<close>.
\<close>

record new_ids =
  newWineId :: "uuid option"
  newBottleFormatId :: "uuid option"
  newBottleVintageId :: "uuid option"

text \<open>
  The legacy wine, bottle format and vintage of a line: the field of the line or, when
  that is falsy, the value from its case detail
  (\<^verbatim>\<open>activityDetail.WineItemID || (await this.getWinePropFromCaseDetail(...))\<close>).
\<close>

definition legacy_wine_of :: "env \<Rightarrow> store \<Rightarrow> activity_detail \<Rightarrow> jsval" where
  "legacy_wine_of E s d =
     or_else (WineItemID d) (getWinePropFromCaseDetail E (CaseDetailID d) PropWineId s)"

definition legacy_format_of :: "env \<Rightarrow> store \<Rightarrow> activity_detail \<Rightarrow> jsval" where
  "legacy_format_of E s d =
     or_else (BottleSizeID d) (getWinePropFromCaseDetail E (CaseDetailID d) PropBottleFormatId s)"

definition legacy_vintage_of :: "env \<Rightarrow> store \<Rightarrow> activity_detail \<Rightarrow> jsval" where
  "legacy_vintage_of E s d =
     or_else (VintageID d) (getWinePropFromCaseDetail E (CaseDetailID d) PropBottleVintageId s)"

text \<open>The three awaited look-ups inside the \<^verbatim>\<open>try\<close> block, in the order of the source.\<close>

definition resolve_new_ids :: "env \<Rightarrow> jsval \<Rightarrow> jsval \<Rightarrow> jsval \<Rightarrow> store \<Rightarrow> (error + new_ids) \<times> store" where
  "resolve_new_ids E legacyWineId legacyBottleFormatId legacyBottleVintageId s =
     (case getNewWineId E legacyWineId s of
        (Inl e, s1) \<Rightarrow> (Inl e, s1)
      | (Inr w, s1) \<Rightarrow>
          (case getNewBottleFormatId E legacyBottleFormatId s1 of
             (Inl e, s2) \<Rightarrow> (Inl e, s2)
           | (Inr f, s2) \<Rightarrow>
               (case getNewBottleVintageId E legacyBottleVintageId s2 of
                  (Inl e, s3) \<Rightarrow> (Inl e, s3)
                | (Inr v, s3) \<Rightarrow>
                    (Inr \<lparr>newWineId = w, newBottleFormatId = f, newBottleVintageId = v\<rparr>, s3))))"

text \<open>
  What \<^verbatim>\<open>validateInventoryActivityDetail\<close> returns when it gives up: the seeder a
  bare \<^verbatim>\<open>return\<close>, the migrator an object of three \<^verbatim>\<open>null\<close>s.
\<close>

definition validation_failed :: "script \<Rightarrow> new_ids option" where
  "validation_failed sc =
     (case sc of
        Seeder \<Rightarrow> None
      | Migrator \<Rightarrow> Some \<lparr>newWineId = None, newBottleFormatId = None, newBottleVintageId = None\<rparr>)"

definition validateInventoryActivityDetail :: "env \<Rightarrow> activity_detail \<Rightarrow> store \<Rightarrow> new_ids option \<times> store" where
  "validateInventoryActivityDetail E activityDetail s =
     (let legacyWineId = legacy_wine_of E s activityDetail;
          legacyBottleFormatId = legacy_format_of E s activityDetail;
          legacyBottleVintageId = legacy_vintage_of E s activityDetail
      in case resolve_new_ids E legacyWineId legacyBottleFormatId legacyBottleVintageId s of
           (Inl e, s1) \<Rightarrow> (validation_failed (script_of E), s1)
         | (Inr ids, s1) \<Rightarrow>
             (case (case newWineId ids of
                      Some w \<Rightarrow> (Some w, s1)
                    | None \<Rightarrow>
                        (case createNewWine E legacyWineId
                                (''Legacy Wine - Veritas - '' @ js_to_string legacyWineId) s1 of
                           (w, s2) \<Rightarrow> (Some w, s2))) of
                (newWine, s2) \<Rightarrow>
                  if \<not> truthy legacyWineId \<or> \<not> truthy legacyBottleFormatId
                     \<or> \<not> truthy legacyBottleVintageId \<or> newWine = None
                     \<or> newBottleFormatId ids = None \<or> newBottleVintageId ids = None
                  then (validation_failed (script_of E), s2)
                  else (Some (ids\<lparr>newWineId := newWine\<rparr>), s2)))"

subsection \<open>Case operations\<close>

text \<open>
  The \<^verbatim>\<open>logs\<close> column of a new case operation: the seeder writes
  \<^verbatim>\<open>JSON.stringify([])\<close>, the migrator
  \<^verbatim>\<open>JSON.stringify([{ legacy_activity_id: activity.ActivityID }])\<close>, where the
  activity id is the number read from the extracted JSON.
\<close>

definition new_logs :: "script \<Rightarrow> activity \<Rightarrow> string" where
  \<open>new_logs sc a =
     (case sc of
        Seeder \<Rightarrow> ''[]''
      | Migrator \<Rightarrow> ''[{"legacy_activity_id":'' @ toString (ActivityID a) @ ''}]'')\<close>

text \<open>\<^verbatim>\<open>INSERT INTO cases_operations\<close>, shared by the two creating methods.\<close>

definition new_case_operation ::
  "env \<Rightarrow> uuid \<Rightarrow> uuid \<Rightarrow> string option \<Rightarrow> activity \<Rightarrow> uuid \<Rightarrow> case_operation" where
  "new_case_operation E operationId caseId type activity operationGroupId =
     \<lparr>co_id = operationId, co_tenant_id = defaultTenantId E, co_case_id = caseId,
      co_type = type, co_status = parseActivityStatus (script_of E) (Status activity),
      co_logs = new_logs (script_of E) activity, co_group_id = operationGroupId\<rparr>"

definition insert_case_operation ::
  "env \<Rightarrow> uuid \<Rightarrow> uuid \<Rightarrow> string option \<Rightarrow> activity \<Rightarrow> uuid \<Rightarrow> store \<Rightarrow> store" where
  "insert_case_operation E operationId caseId type activity operationGroupId s =
     s\<lparr>cases_operations := cases_operations s @
         [new_case_operation E operationId caseId type activity operationGroupId]\<rparr>"

text \<open>
  \<^verbatim>\<open>createCaseOperationFromActivityDetail\<close>: mints the identifier first, then reads
  the case; \<^verbatim>\<open>activityDetail.CaseID.toString()\<close> throws on a \<^verbatim>\<open>null\<close> case.
\<close>

definition createCaseOperationFromActivityDetail ::
  "env \<Rightarrow> uuid \<Rightarrow> activity_detail \<Rightarrow> activity \<Rightarrow> store \<Rightarrow> (error + uuid option) \<times> store" where
  "createCaseOperationFromActivityDetail E operationGroupId activityDetail activity s =
     (case uuidv4 s of (operationId, s1) \<Rightarrow>
        (case CaseID activityDetail of
           None \<Rightarrow> (Inl TypeError, s1)
         | Some c \<Rightarrow>
             (case caseIdMap s1 c of
                None \<Rightarrow> (Inr None, s1)
              | Some caseId \<Rightarrow>
                  (Inr (Some operationId),
                   insert_case_operation E operationId caseId
                     (parseActivityTransactionType (script_of E) activity) activity
                     operationGroupId s1))))"

definition getCaseIdFromCaseDetail :: "env \<Rightarrow> nat option \<Rightarrow> store \<Rightarrow> uuid option" where
  "getCaseIdFromCaseDetail E caseDetailId s =
     (case find_case_detail E caseDetailId of
        None \<Rightarrow> None
      | Some caseDetail \<Rightarrow> caseIdMap s (legacy_case_id caseDetail))"

definition createCaseOperationFromActivityTransfer ::
  "env \<Rightarrow> uuid \<Rightarrow> activity \<Rightarrow> uuid \<Rightarrow> string \<Rightarrow> store \<Rightarrow> uuid \<times> store" where
  "createCaseOperationFromActivityTransfer E operationGroupId activity caseId type s =
     (case uuidv4 s of (operationId, s1) \<Rightarrow>
        (operationId,
         insert_case_operation E operationId caseId (Some type) activity operationGroupId s1))"

text \<open>
  \<^verbatim>\<open>SELECT id FROM cases_operations WHERE group_id = $1 AND case_id = $2 AND tenant_id = $3\<close>.
\<close>

definition select_case_operations :: "env \<Rightarrow> uuid \<Rightarrow> uuid \<Rightarrow> store \<Rightarrow> case_operation list" where
  "select_case_operations E operationGroupId caseId s =
     filter (\<lambda>co. co_group_id co = operationGroupId \<and> co_case_id co = caseId
                   \<and> co_tenant_id co = defaultTenantId E) (cases_operations s)"

definition getCaseOperation ::
  "env \<Rightarrow> uuid \<Rightarrow> uuid \<Rightarrow> activity \<Rightarrow> activity_detail \<Rightarrow> store \<Rightarrow> (error + uuid option) \<times> store" where
  "getCaseOperation E operationGroupId caseId activity activityDetail s =
     (case select_case_operations E operationGroupId caseId s of
        [] \<Rightarrow> createCaseOperationFromActivityDetail E operationGroupId activityDetail activity s
      | caseOperation # _ \<Rightarrow> (Inr (Some (co_id caseOperation)), s))"

text \<open>
  \<^verbatim>\<open>getCaseOperationFromActivityDetail\<close>: the seeder catches the exception of a
  \<^verbatim>\<open>null\<close> case and returns \<^verbatim>\<open>undefined\<close>; the migrator has no \<^verbatim>\<open>try\<close>.
\<close>

definition getCaseOperationFromActivityDetail ::
  "env \<Rightarrow> uuid \<Rightarrow> activity_detail \<Rightarrow> activity \<Rightarrow> store \<Rightarrow> (error + uuid option) \<times> store" where
  "getCaseOperationFromActivityDetail E operationGroupId activityDetail activity s =
     (case CaseID activityDetail of
        None \<Rightarrow> (case script_of E of Seeder \<Rightarrow> (Inr None, s) | Migrator \<Rightarrow> (Inl TypeError, s))
      | Some c \<Rightarrow>
          (case caseIdMap s c of
             None \<Rightarrow> (Inr None, s)
           | Some caseId \<Rightarrow> getCaseOperation E operationGroupId caseId activity activityDetail s))"

subsection \<open>Deposit and withdrawal path\<close>

text \<open>
  \<^verbatim>\<open>createOrUpdateCaseOperationFromActivityDepositOrWithdrawalActivityDetail\<close>.
  Both scripts destructure the result of the validation; destructuring
  \<^verbatim>\<open>undefined\<close> throws a \<^verbatim>\<open>TypeError\<close>, outside any \<^verbatim>\<open>try\<close>. The migrator then
  tests the three identifiers and skips the line when one is \<^verbatim>\<open>null\<close>; the seeder has
  no such test, and its validation returns an object only with three identifiers
  (lemma \<open>validate_spec\<close>), so the last branch is never taken by the seeder.
  The seeder returns the operation id, the migrator nothing.
\<close>

definition createOrUpdateCaseOperationFromActivityDepositOrWithdrawalActivityDetail ::
  "env \<Rightarrow> uuid \<Rightarrow> activity_detail \<Rightarrow> activity \<Rightarrow> store \<Rightarrow> (error + uuid option) \<times> store" where
  "createOrUpdateCaseOperationFromActivityDepositOrWithdrawalActivityDetail E operationGroupId activityDetail activity s =
     (case getCaseOperationFromActivityDetail E operationGroupId activityDetail activity s of
        (Inl e, s1) \<Rightarrow> (Inl e, s1)
      | (Inr None, s1) \<Rightarrow> (Inr None, s1)
      | (Inr (Some operationId), s1) \<Rightarrow>
          (case validateInventoryActivityDetail E activityDetail s1 of
             (None, s2) \<Rightarrow> (Inl TypeError, s2)
           | (Some ids, s2) \<Rightarrow>
               (case (newWineId ids, newBottleFormatId ids, newBottleVintageId ids) of
                  (Some w, Some f, Some v) \<Rightarrow>
                    (Inr (case script_of E of Seeder \<Rightarrow> Some operationId | Migrator \<Rightarrow> None),
                     createCaseOperationInventoryEntry E operationId w f v (Quantity activityDetail) s2)
                | _ \<Rightarrow> (Inr None, s2))))"

text \<open>
  \<^verbatim>\<open>getInventoryActivityDetails\<close> (seeder) and \<^verbatim>\<open>getActivityDetails\<close> (migrator):
  the line items of the activity that are not of kind Supply.
\<close>

definition getInventoryActivityDetails :: "env \<Rightarrow> activity \<Rightarrow> activity_detail list" where
  "getInventoryActivityDetails E activity =
     filter (\<lambda>detail. truthy (of_json (detail_ActivityID detail))
                      \<and> detail_ActivityID detail = Some (ActivityID activity)
                      \<and> ActivityType detail \<noteq> ''Supply'')
       (activityDetails (legacyData E))"

text \<open>The \<^verbatim>\<open>for ... of\<close> loops over the line items; an exception ends the loop.\<close>

fun deposit_or_withdrawal_loop ::
  "env \<Rightarrow> uuid \<Rightarrow> activity \<Rightarrow> activity_detail list \<Rightarrow> store \<Rightarrow> (error + unit) \<times> store" where
  "deposit_or_withdrawal_loop E operationGroupId activity [] s = (Inr (), s)"
| "deposit_or_withdrawal_loop E operationGroupId activity (activityDetail # rest) s =
     (case createOrUpdateCaseOperationFromActivityDepositOrWithdrawalActivityDetail
             E operationGroupId activityDetail activity s of
        (Inl e, s1) \<Rightarrow> (Inl e, s1)
      | (Inr _, s1) \<Rightarrow> deposit_or_withdrawal_loop E operationGroupId activity rest s1)"

definition createCaseOperationsFromActivityDepositOrWithdrawal ::
  "env \<Rightarrow> uuid \<Rightarrow> activity \<Rightarrow> store \<Rightarrow> (error + unit) \<times> store" where
  "createCaseOperationsFromActivityDepositOrWithdrawal E operationGroupId activity s =
     deposit_or_withdrawal_loop E operationGroupId activity (getInventoryActivityDetails E activity) s"

subsection \<open>Transfer path\<close>

text \<open>
  \<^verbatim>\<open>createCaseOperationFromActivityTransferActivityDetail\<close>. A line of kind Case
  returns at once, any other kind than Bottle is skipped; the source case comes from
  the case detail, the destination case from the line's own case.
\<close>

definition createCaseOperationFromActivityTransferActivityDetail ::
  "env \<Rightarrow> uuid \<Rightarrow> activity_detail \<Rightarrow> activity \<Rightarrow> store \<Rightarrow> (error + unit) \<times> store" where
  "createCaseOperationFromActivityTransferActivityDetail E operationGroupId activityDetail activity s =
     (if ActivityType activityDetail = ''Case'' then (Inr (), s)
      else if ActivityType activityDetail \<noteq> ''Bottle'' then (Inr (), s)
      else
        (case CaseID activityDetail of
           None \<Rightarrow> (Inl TypeError, s)
         | Some c \<Rightarrow>
             (case (getCaseIdFromCaseDetail E (CaseDetailID activityDetail) s, caseIdMap s c) of
                (Some sourceCaseId, Some destinationCaseId) \<Rightarrow>
                  (case validateInventoryActivityDetail E activityDetail s of
                     (None, s1) \<Rightarrow> (Inl TypeError, s1)
                   | (Some ids, s1) \<Rightarrow>
                       (case (newWineId ids, newBottleFormatId ids, newBottleVintageId ids) of
                          (Some w, Some f, Some v) \<Rightarrow>
                            (case createCaseOperationFromActivityTransfer E operationGroupId activity
                                    sourceCaseId ''withdrawal'' s1 of
                               (sourceCaseOperationId, s2) \<Rightarrow>
                                 (case createCaseOperationFromActivityTransfer E operationGroupId activity
                                         destinationCaseId ''deposit''
                                         (createCaseOperationInventoryEntry E sourceCaseOperationId
                                            w f v (Quantity activityDetail) s2) of
                                    (destinationCaseOperationId, s4) \<Rightarrow>
                                      (Inr (),
                                       createCaseOperationInventoryEntry E destinationCaseOperationId
                                         w f v (Quantity activityDetail) s4)))
                        | _ \<Rightarrow> (Inr (), s1)))
              | _ \<Rightarrow> (Inr (), s))))"

fun transfer_loop ::
  "env \<Rightarrow> uuid \<Rightarrow> activity \<Rightarrow> activity_detail list \<Rightarrow> store \<Rightarrow> (error + unit) \<times> store" where
  "transfer_loop E operationGroupId activity [] s = (Inr (), s)"
| "transfer_loop E operationGroupId activity (activityDetail # rest) s =
     (case createCaseOperationFromActivityTransferActivityDetail
             E operationGroupId activityDetail activity s of
        (Inl e, s1) \<Rightarrow> (Inl e, s1)
      | (Inr _, s1) \<Rightarrow> transfer_loop E operationGroupId activity rest s1)"

definition createCaseOperationsFromActivityTransfer ::
  "env \<Rightarrow> uuid \<Rightarrow> activity \<Rightarrow> store \<Rightarrow> (error + unit) \<times> store" where
  "createCaseOperationsFromActivityTransfer E operationGroupId activity s =
     transfer_loop E operationGroupId activity (getInventoryActivityDetails E activity) s"

subsection \<open>Operation groups and the full run\<close>

definition insert_operation_group :: "env \<Rightarrow> uuid \<Rightarrow> uuid \<Rightarrow> activity \<Rightarrow> store \<Rightarrow> store" where
  "insert_operation_group E operationGroupId customerId activity s =
     s\<lparr>operations_groups := operations_groups s @
         [\<lparr>og_id = operationGroupId, og_tenant_id = defaultTenantId E,
           og_customer_id = customerId,
           og_status = parseActivityStatus (script_of E) (Status activity)\<rparr>]\<rparr>"

text \<open>The \<^verbatim>\<open>switch (activity.TransactionType)\<close> of both scripts.\<close>

definition dispatch_transaction_type :: "env \<Rightarrow> uuid \<Rightarrow> activity \<Rightarrow> store \<Rightarrow> (error + unit) \<times> store" where
  "dispatch_transaction_type E operationGroupId activity s =
     (if TransactionType activity = ''D'' \<or> TransactionType activity = ''W''
      then createCaseOperationsFromActivityDepositOrWithdrawal E operationGroupId activity s
      else if TransactionType activity = ''T''
      then createCaseOperationsFromActivityTransfer E operationGroupId activity s
      else (Inr (), s))"

text \<open>
  \<^verbatim>\<open>createOperationGroup\<close>: the seeder inserts the group and reconciles the activity;
  the migrator only inserts the group (\<^verbatim>\<open>migrateActivity\<close> reconciles).
\<close>

definition createOperationGroup :: "env \<Rightarrow> uuid \<Rightarrow> activity \<Rightarrow> store \<Rightarrow> (error + uuid) \<times> store" where
  "createOperationGroup E customerId activity s =
     (case uuidv4 s of (operationGroupId, s1) \<Rightarrow>
        (case script_of E of
           Seeder \<Rightarrow>
             (case dispatch_transaction_type E operationGroupId activity
                     (insert_operation_group E operationGroupId customerId activity s1) of
                (Inl e, s2) \<Rightarrow> (Inl e, s2)
              | (Inr _, s2) \<Rightarrow> (Inr operationGroupId, s2))
         | Migrator \<Rightarrow>
             (Inr operationGroupId,
              insert_operation_group E operationGroupId customerId activity s1)))"

text \<open>
  \<^verbatim>\<open>getCustomerActivities\<close>: the filter
  \<^verbatim>\<open>activity.AccountID && activity.AccountID.toString() === legacyAccountId.toString() && activity.Status === 1\<close>.
  The key of a user without legacy id is \<^verbatim>\<open>null\<close>, and \<^verbatim>\<open>null.toString()\<close> throws
  as soon as one activity has an account.
\<close>

definition getCustomerActivities :: "env \<Rightarrow> nat option \<Rightarrow> error + activity list" where
  "getCustomerActivities E legacyAccountId =
     (case legacyAccountId of
        None \<Rightarrow>
          (if list_ex (\<lambda>activity. truthy (of_json (AccountID activity))) (activities (legacyData E))
           then Inl TypeError else Inr [])
      | Some n \<Rightarrow>
          Inr (filter (\<lambda>activity. truthy (of_json (AccountID activity))
                                  \<and> AccountID activity = Some n \<and> Status activity = 1)
                 (activities (legacyData E))))"

text \<open>
  The maps loaded from the target store. \<^verbatim>\<open>Map.set\<close> keeps the position of a key
  that is already there. The keys are the texts of the \<^verbatim>\<open>legacy_id\<close> column or
  \<^verbatim>\<open>null\<close>; the case map is only read through \<^verbatim>\<open>toString()\<close>, so it is a map on
  the numbers. The wine, bottle format and bottle vintage maps are read with the number
  itself, which is never equal to a text key: of the loaded keys only \<^verbatim>\<open>null\<close> can be
  found.
\<close>

fun map_set :: "'k \<Rightarrow> 'v \<Rightarrow> ('k \<times> 'v) list \<Rightarrow> ('k \<times> 'v) list" where
  "map_set k v [] = [(k, v)]"
| "map_set k v ((k', v') # m) = (if k' = k then (k, v) # m else (k', v') # map_set k v m)"

definition tenant_rows :: "env \<Rightarrow> lookup_row list \<Rightarrow> lookup_row list" where
  "tenant_rows E rows = filter (\<lambda>r. row_tenant_id r = defaultTenantId E) rows"

definition getCustomerIdMap :: "env \<Rightarrow> store \<Rightarrow> (nat option \<times> uuid) list" where
  "getCustomerIdMap E s =
     fold (\<lambda>customer m. map_set (row_legacy_id customer) (row_id customer) m)
       (tenant_rows E (users s)) []"

definition getCaseIdMap :: "env \<Rightarrow> store \<Rightarrow> (nat \<rightharpoonup> uuid)" where
  "getCaseIdMap E s =
     fold (\<lambda>c m. case row_legacy_id c of None \<Rightarrow> m | Some n \<Rightarrow> m(n \<mapsto> row_id c))
       (tenant_rows E (cases s)) Map.empty"

definition loaded_map :: "(nat option \<times> uuid) list \<Rightarrow> (jsval \<rightharpoonup> uuid)" where
  "loaded_map rows =
     (\<lambda>k. case k of
             Null \<Rightarrow> (case filter (\<lambda>r. fst r = None) rows of
                        [] \<Rightarrow> None
                      | r # rs \<Rightarrow> Some (snd (last (r # rs))))
           | _ \<Rightarrow> None)"

definition getWineIdMap :: "env \<Rightarrow> store \<Rightarrow> (jsval \<rightharpoonup> uuid)" where
  "getWineIdMap E s =
     loaded_map (map (\<lambda>w. (wine_legacy_id w, wine_id w))
                   (filter (\<lambda>w. wine_tenant_id w = defaultTenantId E) (wines s)))"

definition getBottleFormatIdMap :: "env \<Rightarrow> store \<Rightarrow> (jsval \<rightharpoonup> uuid)" where
  "getBottleFormatIdMap E s =
     loaded_map (map (\<lambda>b. (row_legacy_id b, row_id b)) (tenant_rows E (wine_bottle_formats s)))"

definition getBottleVintageIdMap :: "env \<Rightarrow> store \<Rightarrow> (jsval \<rightharpoonup> uuid)" where
  "getBottleVintageIdMap E s =
     loaded_map (map (\<lambda>b. (row_legacy_id b, row_id b)) (tenant_rows E (wine_bottle_vintages s)))"

fun activities_loop :: "env \<Rightarrow> uuid \<Rightarrow> activity list \<Rightarrow> store \<Rightarrow> (error + unit) \<times> store" where
  "activities_loop E customerId [] s = (Inr (), s)"
| "activities_loop E customerId (activity # rest) s =
     (case createOperationGroup E customerId activity s of
        (Inl e, s1) \<Rightarrow> (Inl e, s1)
      | (Inr _, s1) \<Rightarrow> activities_loop E customerId rest s1)"

fun customers_loop :: "env \<Rightarrow> (nat option \<times> uuid) list \<Rightarrow> store \<Rightarrow> (error + unit) \<times> store" where
  "customers_loop E [] s = (Inr (), s)"
| "customers_loop E ((legacyAccountId, customerId) # rest) s =
     (case getCustomerActivities E legacyAccountId of
        Inl e \<Rightarrow> (Inl e, s)
      | Inr customerActivities \<Rightarrow>
          (case activities_loop E customerId customerActivities s of
             (Inl e, s1) \<Rightarrow> (Inl e, s1)
           | (Inr _, s1) \<Rightarrow> customers_loop E rest s1))"

definition seedOperationGroups :: "env \<Rightarrow> store \<Rightarrow> (error + unit) \<times> store" where
  "seedOperationGroups E s =
     (let s1 = s\<lparr>customerIdMap := getCustomerIdMap E s, caseIdMap := getCaseIdMap E s\<rparr>
      in customers_loop E (customerIdMap s1) s1)"

subsection \<open>Snapshot entries from the case details\<close>

text \<open>
  One iteration of the loop of \<^verbatim>\<open>seedWineInventoryEntriesFromCaseDetails\<close>. Every
  exception is caught inside the iteration, which then counts the case detail as
  skipped. \<^verbatim>\<open>caseDetail.WineQuantity <= 0\<close> holds for \<^verbatim>\<open>null\<close> as well.
\<close>

definition insert_snapshot_entry :: "env \<Rightarrow> uuid \<Rightarrow> uuid \<Rightarrow> uuid \<Rightarrow> int \<Rightarrow> uuid \<Rightarrow> store \<Rightarrow> store" where
  "insert_snapshot_entry E w f v amount newCaseId s =
     (case uuidv4 s of (entryId, s1) \<Rightarrow>
        s1\<lparr>wine_inventory_entries := wine_inventory_entries s1 @
             [\<lparr>wie_id = entryId, wie_tenant_id = defaultTenantId E, wie_operation_id = None,
               wie_wine_id = w, wie_bottle_format_id = f, wie_bottle_vintage_id = v,
               wie_amount = amount, wie_case_id = Some newCaseId\<rparr>]\<rparr>)"

definition seed_case_detail :: "env \<Rightarrow> case_detail \<Rightarrow> store \<Rightarrow> store" where
  "seed_case_detail E caseDetail s =
     (if \<not> truthy (of_json (legacy_wine_item_id caseDetail)) then s
      else
        (case getNewWineId E (of_json (legacy_wine_item_id caseDetail)) s of
           (Inl e, s1) \<Rightarrow> s1
         | (Inr None, s1) \<Rightarrow> s1
         | (Inr (Some w), s1) \<Rightarrow>
        (case getNewBottleFormatId E (of_json (legacy_bottle_size_id caseDetail)) s1 of
           (Inl e, s2) \<Rightarrow> s2
         | (Inr None, s2) \<Rightarrow> s2
         | (Inr (Some f), s2) \<Rightarrow>
        (case getNewBottleVintageId E (of_json (legacy_vintage_id caseDetail)) s2 of
           (Inl e, s3) \<Rightarrow> s3
         | (Inr None, s3) \<Rightarrow> s3
         | (Inr (Some v), s3) \<Rightarrow>
        (case WineQuantity caseDetail of
           None \<Rightarrow> s3
         | Some q \<Rightarrow>
             if q \<le> 0 then s3
             else if legacy_case_id caseDetail = 0 then s3
             else
               (case caseIdMap s3 (legacy_case_id caseDetail) of
                  None \<Rightarrow> s3
                | Some newCaseId \<Rightarrow>
                    insert_snapshot_entry E w f v (if q = 0 then 0 else q) newCaseId s3))))))"

text \<open>
  \<^verbatim>\<open>seedWineInventoryEntriesFromCaseDetails\<close>: reloads the five maps, returns when
  there is no case detail, otherwise deletes the entries of the tenant that have no
  operation and walks the case details.
\<close>

definition load_all_maps :: "env \<Rightarrow> store \<Rightarrow> store" where
  "load_all_maps E s =
     s\<lparr>customerIdMap := getCustomerIdMap E s, caseIdMap := getCaseIdMap E s,
       wineMapId := getWineIdMap E s, bottleFormatMapId := getBottleFormatIdMap E s,
       bottleVintageMapId := getBottleVintageIdMap E s\<rparr>"

definition is_snapshot :: "env \<Rightarrow> wine_inventory_entry \<Rightarrow> bool" where
  "is_snapshot E e = (wie_tenant_id e = defaultTenantId E \<and> wie_operation_id e = None)"

definition seedWineInventoryEntriesFromCaseDetails :: "env \<Rightarrow> store \<Rightarrow> store" where
  "seedWineInventoryEntriesFromCaseDetails E s =
     (let s1 = load_all_maps E s
      in if caseDetails (legacyData E) = [] then s1
         else fold (seed_case_detail E) (caseDetails (legacyData E))
                (s1\<lparr>wine_inventory_entries :=
                      filter (\<lambda>e. \<not> is_snapshot E e) (wine_inventory_entries s1)\<rparr>))"

subsection \<open>Migration of one activity\<close>

text \<open>
  \<^verbatim>\<open>findExistingOperationGroup\<close> joins the groups of the tenant with their case
  operations and keeps the rows with
  \<^verbatim>\<open>co.logs::text LIKE '%"legacy_activity_id":"<activityId>"%'\<close>. In a
  \<^verbatim>\<open>LIKE\<close> pattern an underscore stands for any one character. The logs are taken
  as the text that was written.
\<close>

fun like_prefix :: "string \<Rightarrow> string \<Rightarrow> bool" where
  "like_prefix [] text = True"
| "like_prefix (p # ps) [] = False"
| "like_prefix (p # ps) (c # cs) = ((p = CHR ''_'' \<or> p = c) \<and> like_prefix ps cs)"

fun like_contains :: "string \<Rightarrow> string \<Rightarrow> bool" where
  "like_contains pat [] = like_prefix pat []"
| "like_contains pat (c # cs) = (like_prefix pat (c # cs) \<or> like_contains pat cs)"

definition legacy_activity_pattern :: "nat \<Rightarrow> string" where
  \<open>legacy_activity_pattern activityId = ''"legacy_activity_id":"'' @ toString activityId @ ''"''\<close>

definition select_stamped_groups :: "env \<Rightarrow> nat \<Rightarrow> store \<Rightarrow> operation_group list" where
  "select_stamped_groups E activityId s =
     concat (map (\<lambda>og. map (\<lambda>co. og)
                   (filter (\<lambda>co. co_group_id co = og_id og
                                 \<and> like_contains (legacy_activity_pattern activityId) (co_logs co))
                      (cases_operations s)))
               (filter (\<lambda>og. og_tenant_id og = defaultTenantId E) (operations_groups s)))"

definition findExistingOperationGroup :: "env \<Rightarrow> nat \<Rightarrow> store \<Rightarrow> operation_group option" where
  "findExistingOperationGroup E activityId s =
     (case select_stamped_groups E activityId s of [] \<Rightarrow> None | og # _ \<Rightarrow> Some og)"

definition delete_group :: "env \<Rightarrow> uuid \<Rightarrow> store \<Rightarrow> store" where
  "delete_group E groupId s =
     (let s1 = s\<lparr>wine_inventory_entries :=
                  filter (\<lambda>e. \<not> ((case wie_operation_id e of
                                      None \<Rightarrow> False
                                    | Some opid \<Rightarrow>
                                        list_ex (\<lambda>co. co_id co = opid \<and> co_group_id co = groupId)
                                          (cases_operations s))
                                   \<and> wie_tenant_id e = defaultTenantId E))
                    (wine_inventory_entries s)\<rparr>;
          s2 = s1\<lparr>cases_operations :=
                  filter (\<lambda>co. \<not> (co_group_id co = groupId \<and> co_tenant_id co = defaultTenantId E))
                    (cases_operations s1)\<rparr>
      in s2\<lparr>operations_groups :=
              filter (\<lambda>og. \<not> (og_id og = groupId \<and> og_tenant_id og = defaultTenantId E))
                (operations_groups s2)\<rparr>)"

definition clearExistingActivityData :: "env \<Rightarrow> nat \<Rightarrow> store \<Rightarrow> store" where
  "clearExistingActivityData E activityId s =
     fold (\<lambda>og. delete_group E (og_id og)) (select_stamped_groups E activityId s) s"

text \<open>
  \<^verbatim>\<open>validateDependencies\<close>: the customer and every case of the line items must
  exist; the result is the exception thrown, if any.
\<close>

definition validateDependencies :: "env \<Rightarrow> activity \<Rightarrow> store \<Rightarrow> error option" where
  "validateDependencies E activity s =
     (case AccountID activity of
        None \<Rightarrow> Some TypeError
      | Some account \<Rightarrow>
          if select_rows E account (users s) = [] then Some Error
          else
            (case List.find (\<lambda>detail. case CaseID detail of
                                        None \<Rightarrow> True
                                      | Some c \<Rightarrow> select_rows E c (cases s) = [])
                    (getInventoryActivityDetails E activity) of
               None \<Rightarrow> None
             | Some detail \<Rightarrow> (case CaseID detail of None \<Rightarrow> Some TypeError | Some c \<Rightarrow> Some Error)))"

definition migrateActivity :: "env \<Rightarrow> activity \<Rightarrow> store \<Rightarrow> (error + unit) \<times> store" where
  "migrateActivity E activity s =
     (case AccountID activity of
        None \<Rightarrow> (Inl TypeError, s)
      | Some account \<Rightarrow>
          (case map_of (customerIdMap s) (Some account) of
             None \<Rightarrow> (Inl Error, s)
           | Some customerId \<Rightarrow>
               (case createOperationGroup E customerId activity s of
                  (Inl e, s1) \<Rightarrow> (Inl e, s1)
                | (Inr operationGroupId, s1) \<Rightarrow>
                    if getInventoryActivityDetails E activity = [] then (Inr (), s1)
                    else dispatch_transaction_type E operationGroupId activity s1)))"

definition migrate :: "env \<Rightarrow> nat \<Rightarrow> bool \<Rightarrow> store \<Rightarrow> (error + unit) \<times> store" where
  "migrate E activityId clearExisting s =
     (case List.find (\<lambda>activity. ActivityID activity = activityId) (activities (legacyData E)) of
        None \<Rightarrow> (Inl Error, s)
      | Some activity \<Rightarrow>
          (case validateDependencies E activity s of
             Some e \<Rightarrow> (Inl e, s)
           | None \<Rightarrow>
               (let s1 = (if clearExisting then clearExistingActivityData E activityId s else s)
                in if findExistingOperationGroup E activityId s1 \<noteq> None \<and> \<not> clearExisting
                   then (Inr (), s1)
                   else migrateActivity E activity (load_all_maps E s1))))"

subsection \<open>Resolvability of a line item\<close>

text \<open>
  A legacy bottle format (vintage) resolves in a store when the memoisation map has it
  or the table of the tenant has a row with that legacy id: this is when
  \<^verbatim>\<open>getNewBottleFormatId\<close> (\<^verbatim>\<open>getNewBottleVintageId\<close>) returns an identifier.
\<close>

fun key_rows :: "env \<Rightarrow> jsval \<Rightarrow> lookup_row list \<Rightarrow> lookup_row list" where
  "key_rows E (Num n) rows = select_rows E n rows"
| "key_rows E Null rows = []"
| "key_rows E Undefined rows = []"

definition format_resolves :: "env \<Rightarrow> store \<Rightarrow> jsval \<Rightarrow> bool" where
  "format_resolves E s k =
     (bottleFormatMapId s k \<noteq> None \<or> key_rows E k (wine_bottle_formats s) \<noteq> [])"

definition vintage_resolves :: "env \<Rightarrow> store \<Rightarrow> jsval \<Rightarrow> bool" where
  "vintage_resolves E s k =
     (bottleVintageMapId s k \<noteq> None \<or> key_rows E k (wine_bottle_vintages s) \<noteq> [])"

text \<open>
  A line is fully resolved for the ledger when its three legacy ids are truthy and its
  bottle format and vintage resolve (the wine is created when it is missing).
\<close>

definition line_valid :: "env \<Rightarrow> store \<Rightarrow> activity_detail \<Rightarrow> bool" where
  "line_valid E s d =
     (truthy (legacy_wine_of E s d) \<and> truthy (legacy_format_of E s d)
      \<and> truthy (legacy_vintage_of E s d)
      \<and> format_resolves E s (legacy_format_of E s d)
      \<and> vintage_resolves E s (legacy_vintage_of E s d))"

text \<open>The target case of a line, if its legacy case is known.\<close>

definition target_case :: "store \<Rightarrow> activity_detail \<Rightarrow> uuid option" where
  "target_case s d = (case CaseID d of None \<Rightarrow> None | Some c \<Rightarrow> caseIdMap s c)"

text \<open>
  A Bottle line of a transfer is fully resolved when its source case (through the case
  detail) and its destination case are known and the line is valid.
\<close>

definition transfer_resolved :: "env \<Rightarrow> store \<Rightarrow> activity_detail \<Rightarrow> bool" where
  "transfer_resolved E s d =
     (ActivityType d = ''Bottle''
      \<and> getCaseIdFromCaseDetail E (CaseDetailID d) s \<noteq> None
      \<and> target_case s d \<noteq> None
      \<and> line_valid E s d)"

text \<open>
  A step that touches at most the wine table, the memoisation maps and the counter.
\<close>

definition lookups_only :: "store \<Rightarrow> store \<Rightarrow> bool" where
  "lookups_only s s' =
     (users s' = users s \<and> cases s' = cases s
      \<and> wine_bottle_formats s' = wine_bottle_formats s
      \<and> wine_bottle_vintages s' = wine_bottle_vintages s
      \<and> operations_groups s' = operations_groups s
      \<and> cases_operations s' = cases_operations s
      \<and> wine_inventory_entries s' = wine_inventory_entries s
      \<and> customerIdMap s' = customerIdMap s \<and> caseIdMap s' = caseIdMap s
      \<and> next_uuid s \<le> next_uuid s')"

text \<open>
  What the reconciliation of line items leaves alone: the lookup tables, the groups, the
  customer and case maps, and which bottle formats and vintages resolve; the counter
  never decreases.
\<close>

definition extends :: "env \<Rightarrow> store \<Rightarrow> store \<Rightarrow> bool" where
  "extends E s s' =
     (users s' = users s \<and> cases s' = cases s
      \<and> wine_bottle_formats s' = wine_bottle_formats s
      \<and> wine_bottle_vintages s' = wine_bottle_vintages s
      \<and> operations_groups s' = operations_groups s
      \<and> customerIdMap s' = customerIdMap s \<and> caseIdMap s' = caseIdMap s
      \<and> next_uuid s \<le> next_uuid s'
      \<and> (\<forall>k. format_resolves E s' k = format_resolves E s k)
      \<and> (\<forall>k. vintage_resolves E s' k = vintage_resolves E s k))"

text \<open>
  Identifiers in the store come from the counter: every case operation, and every
  operation an entry points to, was minted before.
\<close>

definition minted :: "store \<Rightarrow> bool" where
  "minted s =
     ((\<forall>co \<in> set (cases_operations s). co_id co < next_uuid s)
      \<and> (\<forall>e \<in> set (wine_inventory_entries s).
            case wie_operation_id e of None \<Rightarrow> True | Some opid \<Rightarrow> opid < next_uuid s))"

text \<open>
  The two legs a fully resolved transfer line must produce: a withdrawal on the source
  case and a deposit on the destination case.
\<close>

definition transfer_legs :: "env \<Rightarrow> store \<Rightarrow> activity_detail \<Rightarrow> (uuid \<times> string option) list" where
  "transfer_legs E s d =
     (case (getCaseIdFromCaseDetail E (CaseDetailID d) s, target_case s d) of
        (Some sourceCaseId, Some destinationCaseId) \<Rightarrow>
          [(sourceCaseId, Some ''withdrawal''), (destinationCaseId, Some ''deposit'')]
      | _ \<Rightarrow> [])"

text \<open>
  The total amount posted under the case operations of a group that have a given type.
\<close>

definition posted_to :: "uuid \<Rightarrow> string \<Rightarrow> store \<Rightarrow> wine_inventory_entry \<Rightarrow> bool" where
  "posted_to g ty s e =
     list_ex (\<lambda>co. wie_operation_id e = Some (co_id co) \<and> co_group_id co = g
                   \<and> co_type co = Some ty)
       (cases_operations s)"

definition posted_total :: "uuid \<Rightarrow> string \<Rightarrow> store \<Rightarrow> int" where
  "posted_total g ty s =
     sum_list (map wie_amount (filter (posted_to g ty s) (wine_inventory_entries s)))"



text \<open>
  The placeholder wine that validation inserts for a legacy wine id, and the condition
  under which a legacy wine id is unambiguous in a store: the tenant has at most one
  wine with it, and a memoised identifier for it is the identifier of that wine.
\<close>

definition placeholder_wine :: "env \<Rightarrow> uuid \<Rightarrow> nat \<Rightarrow> wine" where
  "placeholder_wine E wineId n =
     \<lparr>wine_id = wineId, wine_tenant_id = defaultTenantId E, wine_legacy_id = Some n,
      wine_description = ''Legacy Wine - Veritas - '' @ toString n\<rparr>"

definition wine_memo_ok :: "env \<Rightarrow> nat \<Rightarrow> store \<Rightarrow> bool" where
  "wine_memo_ok E n s =
     (length (select_wines E n s) \<le> 1
      \<and> (wineMapId s (Num n) = None
          \<or> map (\<lambda>w. Some (wine_id w)) (select_wines E n s) = [wineMapId s (Num n)]))"

text \<open>
  The activities of a customer key with legacy status 1: what \<^verbatim>\<open>getCustomerActivities\<close>
  returns when it returns.
\<close>

definition selected_activities :: "env \<Rightarrow> nat option \<Rightarrow> activity list" where
  "selected_activities E k =
     filter (\<lambda>a. AccountID a = k \<and> truthy (of_json k) \<and> Status a = 1)
       (activities (legacyData E))"

subsection \<open>Snapshot of a case detail\<close>

text \<open>
  An inventory entry without its row identifier, and the snapshot entries of the tenant:
  the entries that no operation owns.
\<close>

definition entry_row ::
  "wine_inventory_entry \<Rightarrow> uuid \<times> uuid option \<times> uuid \<times> uuid \<times> uuid \<times> int \<times> uuid option" where
  "entry_row e =
     (wie_tenant_id e, wie_operation_id e, wie_wine_id e, wie_bottle_format_id e,
      wie_bottle_vintage_id e, wie_amount e, wie_case_id e)"

definition snapshot_entries :: "env \<Rightarrow> store \<Rightarrow> wine_inventory_entry list" where
  "snapshot_entries E s = filter (is_snapshot E) (wine_inventory_entries s)"

text \<open>
  The snapshot of one case detail in a store: the row that one iteration of the loop of
  \<^verbatim>\<open>seedWineInventoryEntriesFromCaseDetails\<close> inserts when every look-up is made in
  that store, that is, when the wine, the bottle format, the vintage and the case of the
  case detail resolve there and its quantity is positive; no row otherwise.
\<close>

definition snapshot_row ::
  "env \<Rightarrow> store \<Rightarrow> case_detail
     \<Rightarrow> (uuid \<times> uuid option \<times> uuid \<times> uuid \<times> uuid \<times> int \<times> uuid option) list" where
  "snapshot_row E s caseDetail =
     (case (fst (getNewWineId E (of_json (legacy_wine_item_id caseDetail)) s),
            fst (getNewBottleFormatId E (of_json (legacy_bottle_size_id caseDetail)) s),
            fst (getNewBottleVintageId E (of_json (legacy_vintage_id caseDetail)) s),
            WineQuantity caseDetail,
            caseIdMap s (legacy_case_id caseDetail)) of
        (Inr (Some w), Inr (Some f), Inr (Some v), Some q, Some newCaseId) \<Rightarrow>
          if truthy (of_json (legacy_wine_item_id caseDetail)) \<and> 0 < q
             \<and> legacy_case_id caseDetail \<noteq> 0
          then [(defaultTenantId E, None, w, f, v, q, Some newCaseId)]
          else []
      | _ \<Rightarrow> [])"

text \<open>
  Two stores in which every look-up of the snapshot seeding has the same result: they
  have the same wines, bottle formats, vintages and case map, and the memoisation maps
  answer alike.
\<close>

definition same_lookups :: "env \<Rightarrow> store \<Rightarrow> store \<Rightarrow> bool" where
  "same_lookups E s s' =
     (users s' = users s \<and> cases s' = cases s \<and> wines s' = wines s
      \<and> wine_bottle_formats s' = wine_bottle_formats s
      \<and> wine_bottle_vintages s' = wine_bottle_vintages s
      \<and> operations_groups s' = operations_groups s
      \<and> cases_operations s' = cases_operations s
      \<and> customerIdMap s' = customerIdMap s \<and> caseIdMap s' = caseIdMap s
      \<and> (\<forall>k. fst (getNewWineId E k s') = fst (getNewWineId E k s))
      \<and> (\<forall>k. fst (getNewBottleFormatId E k s') = fst (getNewBottleFormatId E k s))
      \<and> (\<forall>k. fst (getNewBottleVintageId E k s') = fst (getNewBottleVintageId E k s)))"

subsection \<open>Example data\<close>

definition empty_store :: store where
  "empty_store =
     \<lparr>users = [], cases = [], wines = [], wine_bottle_formats = [], wine_bottle_vintages = [],
      operations_groups = [], cases_operations = [], wine_inventory_entries = [],
      customerIdMap = [], caseIdMap = Map.empty, wineMapId = Map.empty,
      bottleFormatMapId = Map.empty, bottleVintageMapId = Map.empty, next_uuid = 100\<rparr>"

definition no_legacy_data :: legacy_data where
  "no_legacy_data = \<lparr>activities = [], activityDetails = [], caseDetails = []\<rparr>"

definition example_env :: "script \<Rightarrow> env" where
  "example_env sc = \<lparr>script_of = sc, defaultTenantId = 1, legacyData = no_legacy_data\<rparr>"

text \<open>
  A target store of tenant 1 with one customer (legacy account 42), three cases (legacy
  10, 20, 30), one wine (legacy 7), one bottle format (legacy 1) and one vintage (legacy
  2015), with the case map loaded.
\<close>

definition example_store :: store where
  "example_store =
     \<lparr>users = [\<lparr>row_id = 942, row_tenant_id = 1, row_legacy_id = Some 42\<rparr>],
      cases = [\<lparr>row_id = 510, row_tenant_id = 1, row_legacy_id = Some 10\<rparr>,
               \<lparr>row_id = 520, row_tenant_id = 1, row_legacy_id = Some 20\<rparr>,
               \<lparr>row_id = 530, row_tenant_id = 1, row_legacy_id = Some 30\<rparr>],
      wines = [\<lparr>wine_id = 807, wine_tenant_id = 1, wine_legacy_id = Some 7,
                wine_description = ''Barolo''\<rparr>],
      wine_bottle_formats = [\<lparr>row_id = 601, row_tenant_id = 1, row_legacy_id = Some 1\<rparr>],
      wine_bottle_vintages = [\<lparr>row_id = 701, row_tenant_id = 1, row_legacy_id = Some 2015\<rparr>],
      operations_groups = [], cases_operations = [], wine_inventory_entries = [],
      customerIdMap = [(Some 42, 942)],
      caseIdMap = [10 \<mapsto> 510, 20 \<mapsto> 520, 30 \<mapsto> 530],
      wineMapId = Map.empty, bottleFormatMapId = Map.empty, bottleVintageMapId = Map.empty,
      next_uuid = 1000\<rparr>"

definition line ::
  "nat \<Rightarrow> nat \<Rightarrow> string \<Rightarrow> nat \<Rightarrow> nat option \<Rightarrow> nat option \<Rightarrow> nat option \<Rightarrow> int \<Rightarrow> activity_detail" where
  "line lineId activityId kind caseId caseDetailId wineId sizeId quantity =
     \<lparr>ActivityDetailID = lineId, detail_ActivityID = Some activityId, ActivityType = kind,
      CaseID = Some caseId, CaseDetailID = caseDetailId, WineItemID = wineId,
      BottleSizeID = sizeId, VintageID = Some 2015, Quantity = quantity\<rparr>"

definition act :: "nat \<Rightarrow> string \<Rightarrow> int \<Rightarrow> activity" where
  "act activityId kind status =
     \<lparr>ActivityID = activityId, AccountID = Some 42, TransactionType = kind, Status = status\<rparr>"

text \<open>
  Deposit 501 has two lines on case 10 for the same wine; transfer 502 moves four
  bottles of the unknown wine 8 from the case of case detail 5 (case 20) to case 30;
  deposit 503 has a line whose bottle format 99 is not in the target store, followed by
  a line that resolves; deposit 504 is confirmed (status 3), not processed.
\<close>

definition example_data :: legacy_data where
  "example_data =
     \<lparr>activities = [act 501 ''D'' 1, act 502 ''T'' 1, act 504 ''D'' 3],
      activityDetails =
        [line 1 501 ''Bottle'' 10 None (Some 7) (Some 1) 3,
         line 2 501 ''Bottle'' 10 None (Some 7) (Some 1) 2,
         line 3 502 ''Case'' 30 None None None 1,
         line 4 502 ''Bottle'' 30 (Some 5) (Some 8) (Some 1) 4,
         line 5 502 ''Bottle'' 30 (Some 5) (Some 8) (Some 1) 6,
         line 6 504 ''Bottle'' 10 None (Some 7) (Some 1) 9],
      caseDetails =
        [\<lparr>legacy_case_detail_id = 5, legacy_case_id = 20, legacy_wine_item_id = Some 8,
          legacy_bottle_size_id = Some 1, legacy_vintage_id = Some 2015,
          WineQuantity = Some 4\<rparr>]\<rparr>"

definition failing_data :: legacy_data where
  "failing_data =
     \<lparr>activities = [act 503 ''D'' 1],
      activityDetails =
        [line 7 503 ''Bottle'' 10 None (Some 7) (Some 99) 1,
         line 8 503 ''Bottle'' 20 None (Some 7) (Some 1) 6],
      caseDetails = []\<rparr>"

definition env_of :: "script \<Rightarrow> legacy_data \<Rightarrow> env" where
  "env_of sc data = \<lparr>script_of = sc, defaultTenantId = 1, legacyData = data\<rparr>"

text \<open>Deposit 501 alone, with one line of three bottles on case 10.\<close>

definition small_data :: legacy_data where
  "small_data =
     \<lparr>activities = [act 501 ''D'' 1],
      activityDetails = [line 1 501 ''Bottle'' 10 None (Some 7) (Some 1) 3],
      caseDetails = []\<rparr>"

text \<open>
  The example store with a snapshot entry left by an earlier run, and case details for
  it: twelve bottles of wine 7 in case 10, a case detail without bottles, one of the
  unknown wine 8, and six more bottles of wine 7 in case 20.
\<close>

definition stale_store :: store where
  "stale_store =
     example_store
       \<lparr>wine_inventory_entries :=
          [\<lparr>wie_id = 950, wie_tenant_id = 1, wie_operation_id = None, wie_wine_id = 807,
            wie_bottle_format_id = 601, wie_bottle_vintage_id = 701, wie_amount = 5,
            wie_case_id = Some 510\<rparr>]\<rparr>"

definition detail :: "nat \<Rightarrow> nat \<Rightarrow> nat \<Rightarrow> int \<Rightarrow> case_detail" where
  "detail caseDetailId caseId wineId quantity =
     \<lparr>legacy_case_detail_id = caseDetailId, legacy_case_id = caseId,
      legacy_wine_item_id = Some wineId, legacy_bottle_size_id = Some 1,
      legacy_vintage_id = Some 2015, WineQuantity = Some quantity\<rparr>"

definition snapshot_data :: legacy_data where
  "snapshot_data =
     \<lparr>activities = [], activityDetails = [],
      caseDetails = [detail 1 10 7 12, detail 2 10 7 0, detail 3 20 8 4, detail 4 20 7 6]\<rparr>"

subsection \<open>Status mapping\<close>

text \<open>
  Claim C8, as amended. Both scripts map 1 to processed, 2 and 4 to on_hold and 3 to
  confirmed. For every other legacy status the seeder's mapping is undefined (its
  \<^verbatim>\<open>switch\<close> falls through), while the migrator's mapping is pending (its
  \<^verbatim>\<open>switch\<close> has a default branch).
\<close>

theorem parseActivityStatus_mapping:
  "parseActivityStatus sc 1 = Some ''processed''
   \<and> parseActivityStatus sc 2 = Some ''on_hold''
   \<and> parseActivityStatus sc 3 = Some ''confirmed''
   \<and> parseActivityStatus sc 4 = Some ''on_hold''
   \<and> (status \<notin> {1, 2, 3, 4} \<longrightarrow>
        parseActivityStatus Seeder status = None
        \<and> parseActivityStatus Migrator status = Some ''pending'')"
  by (simp add: parseActivityStatus_def)

theorem parseActivityStatus_mapping_witness:
  "(7::int) \<notin> {1, 2, 3, 4}
   \<and> parseActivityStatus Seeder 3 = Some ''confirmed''
   \<and> parseActivityStatus Seeder 7 = None
   \<and> parseActivityStatus Migrator 7 = Some ''pending''"
  using parseActivityStatus_mapping [of Seeder 7] by simp

text \<open>
  The claim as stated fails for the migrator: legacy status 5 is outside 1..4 and its
  mapped status is pending, not undefined.
\<close>

theorem parseActivityStatus_default_counterexample:
  "(5::int) \<notin> {1, 2, 3, 4} \<and> parseActivityStatus Migrator 5 \<noteq> None
   \<and> parseActivityStatus Migrator 5 = Some ''pending''"
  by (simp add: parseActivityStatus_def)

subsection \<open>Ledger accumulation\<close>

lemma ledger_key_amount [simp]:
  "ledger_key t opid w f v (e\<lparr>wie_amount := n\<rparr>) = ledger_key t opid w f v e"
  by (simp add: ledger_key_def)

lemma filter_update_amount:
  "filter (ledger_key t opid w f v) (update_amount n i es)
     = update_amount n i (filter (ledger_key t opid w f v) es)"
  by (induction es) (simp_all add: update_amount_def)

lemma select_entries_post_new:
  assumes "select_entries E opid w f v s = []"
  shows "select_entries E opid w f v (createCaseOperationInventoryEntry E opid w f v a s)
           = [new_entry E (next_uuid s) opid w f v a]"
  using assms
  by (simp add: createCaseOperationInventoryEntry_def select_entries_def uuidv4_def ledger_key_def
        new_entry_def)

lemma select_entries_post_existing:
  assumes "select_entries E opid w f v s = [e]"
  shows "select_entries E opid w f v (createCaseOperationInventoryEntry E opid w f v b s)
           = [e\<lparr>wie_amount := wie_amount e + b\<rparr>]"
  using assms
  by (simp add: createCaseOperationInventoryEntry_def select_entries_def filter_update_amount)
     (simp add: update_amount_def)

text \<open>
  Claim C3. Posting amount \<open>a\<close> for an operation and a (wine, bottle format, bottle
  vintage) tuple that has no entry yet inserts one entry with exactly the amount \<open>a\<close>
  and no case id, and posting \<open>b\<close> for the same key afterwards leaves exactly one
  entry for the key, with amount \<open>a + b\<close>: the table has grown by one row, not two.
  In any store where the key has exactly one entry, a post adds to its amount.
\<close>

theorem ledger_post_accumulates:
  "(select_entries E opid w f v s = [] \<longrightarrow>
      map wie_amount (select_entries E opid w f v
         (createCaseOperationInventoryEntry E opid w f v a s)) = [a]
    \<and> map wie_amount (select_entries E opid w f v
         (createCaseOperationInventoryEntry E opid w f v b
            (createCaseOperationInventoryEntry E opid w f v a s))) = [a + b]
    \<and> length (wine_inventory_entries
         (createCaseOperationInventoryEntry E opid w f v b
            (createCaseOperationInventoryEntry E opid w f v a s)))
        = Suc (length (wine_inventory_entries s)))
   \<and> (select_entries E opid w f v s = [e] \<longrightarrow>
      select_entries E opid w f v (createCaseOperationInventoryEntry E opid w f v b s)
        = [e\<lparr>wie_amount := wie_amount e + b\<rparr>]
    \<and> length (wine_inventory_entries (createCaseOperationInventoryEntry E opid w f v b s))
        = length (wine_inventory_entries s))"
proof (intro conjI impI)
  assume none: "select_entries E opid w f v s = []"
  let ?s1 = "createCaseOperationInventoryEntry E opid w f v a s"
  have one: "select_entries E opid w f v ?s1 = [new_entry E (next_uuid s) opid w f v a]"
    by (rule select_entries_post_new [OF none])
  show "map wie_amount (select_entries E opid w f v ?s1) = [a]"
    by (simp add: one new_entry_def)
  show "map wie_amount (select_entries E opid w f v
          (createCaseOperationInventoryEntry E opid w f v b ?s1)) = [a + b]"
    by (simp add: select_entries_post_existing [OF one] new_entry_def)
  have len1: "length (wine_inventory_entries ?s1) = Suc (length (wine_inventory_entries s))"
    using none by (simp add: createCaseOperationInventoryEntry_def uuidv4_def)
  have "length (wine_inventory_entries (createCaseOperationInventoryEntry E opid w f v b ?s1))
          = length (wine_inventory_entries ?s1)"
    using one by (simp add: createCaseOperationInventoryEntry_def [of E opid w f v b] update_amount_def)
  with len1 show "length (wine_inventory_entries
         (createCaseOperationInventoryEntry E opid w f v b ?s1))
        = Suc (length (wine_inventory_entries s))"
    by simp
next
  assume one: "select_entries E opid w f v s = [e]"
  show "select_entries E opid w f v (createCaseOperationInventoryEntry E opid w f v b s)
          = [e\<lparr>wie_amount := wie_amount e + b\<rparr>]"
    by (rule select_entries_post_existing [OF one])
  show "length (wine_inventory_entries (createCaseOperationInventoryEntry E opid w f v b s))
          = length (wine_inventory_entries s)"
    using one by (simp add: createCaseOperationInventoryEntry_def update_amount_def)
qed

theorem ledger_post_accumulates_witness:
  "select_entries (example_env Seeder) 7 2 3 4 empty_store = []
   \<and> map wie_amount (select_entries (example_env Seeder) 7 2 3 4
         (createCaseOperationInventoryEntry (example_env Seeder) 7 2 3 4 2
            (createCaseOperationInventoryEntry (example_env Seeder) 7 2 3 4 3 empty_store))) = [5]
   \<and> length (wine_inventory_entries
         (createCaseOperationInventoryEntry (example_env Seeder) 7 2 3 4 2
            (createCaseOperationInventoryEntry (example_env Seeder) 7 2 3 4 3 empty_store))) = 1"
proof -
  have h: "select_entries (example_env Seeder) 7 2 3 4 empty_store = []"
    by (simp add: select_entries_def empty_store_def)
  show ?thesis
    using h ledger_post_accumulates [of "example_env Seeder" 7 2 3 4 empty_store 3 2]
    by (simp add: empty_store_def)
qed

subsection \<open>A line whose bottle format does not resolve\<close>

text \<open>
  Claim C4 at a concrete input. Deposit 503 has a first line with bottle format 99,
  which the target store does not have, and a second line of six bottles that resolves.
  The seeder creates the case operation of the first line, then throws a
  \<^verbatim>\<open>TypeError\<close> out of the whole run: nothing is posted and the second line is never
  reached. The migrator, on the same activity, skips the first line and posts the second.
\<close>

theorem seeder_unresolved_format_aborts:
  "fst (seedOperationGroups (env_of Seeder failing_data) example_store) = Inl TypeError
   \<and> wine_inventory_entries
         (snd (seedOperationGroups (env_of Seeder failing_data) example_store)) = []
   \<and> map co_case_id (cases_operations
         (snd (seedOperationGroups (env_of Seeder failing_data) example_store))) = [510]
   \<and> fst (migrate (env_of Migrator failing_data) 503 False example_store) = Inr ()
   \<and> map wie_amount (wine_inventory_entries
         (snd (migrate (env_of Migrator failing_data) 503 False example_store))) = [6]"
  by code_simp

subsection \<open>Look-ups and validation\<close>

lemma extends_refl: "extends E s s"
  by (simp add: extends_def)

lemma extends_trans: "extends E s s1 \<Longrightarrow> extends E s1 s2 \<Longrightarrow> extends E s s2"
  by (simp add: extends_def)

lemma lookups_only_refl: "lookups_only s s"
  by (simp add: lookups_only_def)

lemma lookups_only_trans: "lookups_only s s1 \<Longrightarrow> lookups_only s1 s2 \<Longrightarrow> lookups_only s s2"
  by (simp add: lookups_only_def)

lemma getNewWineId_spec:
  assumes "getNewWineId E k s = (r, s')"
  shows "lookups_only s s' \<and> bottleFormatMapId s' = bottleFormatMapId s
         \<and> bottleVintageMapId s' = bottleVintageMapId s
         \<and> (truthy k \<longrightarrow> (\<exists>w. r = Inr w))"
  using assms
  by (cases k) (auto simp: getNewWineId_def lookups_only_def split: option.splits list.splits)

lemma getNewBottleFormatId_spec:
  assumes "getNewBottleFormatId E k s = (r, s')"
  shows "lookups_only s s' \<and> bottleVintageMapId s' = bottleVintageMapId s
         \<and> wines s' = wines s \<and> wineMapId s' = wineMapId s
         \<and> (\<forall>k'. format_resolves E s' k' = format_resolves E s k')
         \<and> (case r of Inl e \<Rightarrow> \<not> truthy k
              | Inr f \<Rightarrow> (f \<noteq> None) = format_resolves E s k)"
  using assms
  by (cases k) (auto simp: getNewBottleFormatId_def format_resolves_def lookups_only_def
        split: option.splits list.splits if_splits)

lemma getNewBottleVintageId_spec:
  assumes "getNewBottleVintageId E k s = (r, s')"
  shows "lookups_only s s' \<and> bottleFormatMapId s' = bottleFormatMapId s
         \<and> wines s' = wines s \<and> wineMapId s' = wineMapId s
         \<and> (\<forall>k'. vintage_resolves E s' k' = vintage_resolves E s k')
         \<and> (case r of Inl e \<Rightarrow> \<not> truthy k
              | Inr f \<Rightarrow> (f \<noteq> None) = vintage_resolves E s k)"
  using assms
  by (cases k) (auto simp: getNewBottleVintageId_def vintage_resolves_def lookups_only_def
        split: option.splits list.splits if_splits)

lemma createNewWine_spec:
  assumes "createNewWine E k desc s = (w, s')"
  shows "lookups_only s s' \<and> bottleFormatMapId s' = bottleFormatMapId s
         \<and> bottleVintageMapId s' = bottleVintageMapId s \<and> wineMapId s' = wineMapId s"
  using assms
  by (auto simp: createNewWine_def insert_wine_def uuidv4_def lookups_only_def
        split: script.splits list.splits option.splits)

lemma format_resolves_eqI:
  "bottleFormatMapId s' = bottleFormatMapId s \<Longrightarrow> lookups_only s s'
   \<Longrightarrow> format_resolves E s' k = format_resolves E s k"
  by (simp add: format_resolves_def lookups_only_def)

lemma vintage_resolves_eqI:
  "bottleVintageMapId s' = bottleVintageMapId s \<Longrightarrow> lookups_only s s'
   \<Longrightarrow> vintage_resolves E s' k = vintage_resolves E s k"
  by (simp add: vintage_resolves_def lookups_only_def)

lemma resolve_new_ids_spec:
  assumes "resolve_new_ids E lw lf lv s = (r, s')"
  shows "lookups_only s s' \<and> wines s' = wines s
         \<and> (\<forall>k. format_resolves E s' k = format_resolves E s k)
         \<and> (\<forall>k. vintage_resolves E s' k = vintage_resolves E s k)
         \<and> (case r of
               Inl e \<Rightarrow> \<not> truthy lw \<or> \<not> truthy lf \<or> \<not> truthy lv
             | Inr ids \<Rightarrow> (newBottleFormatId ids \<noteq> None) = format_resolves E s lf
                         \<and> (newBottleVintageId ids \<noteq> None) = vintage_resolves E s lv)"
proof -
  obtain r1 s1 where g1: "getNewWineId E lw s = (r1, s1)" by (cases "getNewWineId E lw s")
  obtain r2 s2 where g2: "getNewBottleFormatId E lf s1 = (r2, s2)" by (cases "getNewBottleFormatId E lf s1")
  obtain r3 s3 where g3: "getNewBottleVintageId E lv s2 = (r3, s3)" by (cases "getNewBottleVintageId E lv s2")
  note p1 = getNewWineId_spec [OF g1]
  note p2 = getNewBottleFormatId_spec [OF g2]
  note p3 = getNewBottleVintageId_spec [OF g3]
  have w1: "wines s1 = wines s"
    using g1 by (cases lw) (auto simp: getNewWineId_def split: option.splits list.splits)
  have l1: "lookups_only s s1" using p1 by simp
  have l2: "lookups_only s s2" using l1 p2 lookups_only_trans by blast
  have l3: "lookups_only s s3" using l2 p3 lookups_only_trans by blast
  have f1: "format_resolves E s1 k = format_resolves E s k" for k
    using p1 by (simp add: format_resolves_eqI)
  have v1: "vintage_resolves E s1 k = vintage_resolves E s k" for k
    using p1 by (simp add: vintage_resolves_eqI)
  have f2: "format_resolves E s2 k = format_resolves E s k" for k
    using p2 f1 by simp
  have v2: "vintage_resolves E s2 k = vintage_resolves E s k" for k
    using p2 v1 by (simp add: vintage_resolves_eqI)
  have f3: "format_resolves E s3 k = format_resolves E s k" for k
    using p3 f2 by (simp add: format_resolves_eqI)
  have v3: "vintage_resolves E s3 k = vintage_resolves E s k" for k
    using p3 v2 by simp
  show ?thesis
  proof (cases r1)
    case (Inl e)
    then have "r = Inl e" "s' = s1" using assms g1 by (simp_all add: resolve_new_ids_def)
    moreover have "\<not> truthy lw" using p1 Inl by auto
    ultimately show ?thesis using l1 w1 f1 v1 by simp
  next
    case r1: (Inr w)
    show ?thesis
    proof (cases r2)
      case (Inl e)
      then have "r = Inl e" "s' = s2" using assms g1 g2 r1 by (simp_all add: resolve_new_ids_def)
      moreover have "\<not> truthy lf" using p2 Inl by simp
      ultimately show ?thesis using l2 w1 p2 f2 v2 by simp
    next
      case r2: (Inr f)
      show ?thesis
      proof (cases r3)
        case (Inl e)
        then have "r = Inl e" "s' = s3" using assms g1 g2 g3 r1 r2 by (simp_all add: resolve_new_ids_def)
        moreover have "\<not> truthy lv" using p3 Inl by simp
        ultimately show ?thesis using l3 w1 p2 p3 f3 v3 by simp
      next
        case r3: (Inr v)
        have "r = Inr \<lparr>newWineId = w, newBottleFormatId = f, newBottleVintageId = v\<rparr>" "s' = s3"
          using assms g1 g2 g3 r1 r2 r3 by (simp_all add: resolve_new_ids_def)
        moreover have "(f \<noteq> None) = format_resolves E s lf"
          using p2 r2 f1 by simp
        moreover have "(v \<noteq> None) = vintage_resolves E s lv"
          using p3 r3 v2 by simp
        ultimately show ?thesis
          using l3 w1 p2 p3 f3 v3 by simp
      qed
    qed
  qed
qed

lemma extends_of_lookups:
  "lookups_only s s' \<Longrightarrow> (\<forall>k. format_resolves E s' k = format_resolves E s k)
   \<Longrightarrow> (\<forall>k. vintage_resolves E s' k = vintage_resolves E s k) \<Longrightarrow> extends E s s'"
  by (simp add: extends_def lookups_only_def)

lemma validate_spec:
  assumes "validateInventoryActivityDetail E d s = (r, s')"
  shows "lookups_only s s' \<and> extends E s s'
         \<and> (line_valid E s d \<longrightarrow>
               (\<exists>w f v. r = Some \<lparr>newWineId = Some w, newBottleFormatId = Some f,
                                    newBottleVintageId = Some v\<rparr>))
         \<and> (\<not> line_valid E s d \<longrightarrow> r = validation_failed (script_of E))"
proof -
  let ?lw = "legacy_wine_of E s d" and ?lf = "legacy_format_of E s d"
    and ?lv = "legacy_vintage_of E s d"
  obtain rr s1 where res: "resolve_new_ids E ?lw ?lf ?lv s = (rr, s1)"
    by (cases "resolve_new_ids E ?lw ?lf ?lv s")
  note p = resolve_new_ids_spec [OF res]
  have l1: "lookups_only s s1" using p by simp
  have f1: "\<forall>k. format_resolves E s1 k = format_resolves E s k" using p by simp
  have v1: "\<forall>k. vintage_resolves E s1 k = vintage_resolves E s k" using p by simp
  show ?thesis
  proof (cases rr)
    case (Inl e)
    then have "r = validation_failed (script_of E)" "s' = s1"
      using assms res by (simp_all add: validateInventoryActivityDetail_def)
    moreover have "\<not> line_valid E s d" using p Inl by (auto simp: line_valid_def)
    ultimately show ?thesis using l1 f1 v1 extends_of_lookups by simp
  next
    case (Inr ids)
    obtain nw s2 where cw:
      "(case newWineId ids of
          Some w \<Rightarrow> (Some w, s1)
        | None \<Rightarrow> (case createNewWine E ?lw (''Legacy Wine - Veritas - '' @ js_to_string ?lw) s1 of
                     (w, s2) \<Rightarrow> (Some w, s2))) = (nw, s2)"
      by (cases "(case newWineId ids of
          Some w \<Rightarrow> (Some w, s1)
        | None \<Rightarrow> (case createNewWine E ?lw (''Legacy Wine - Veritas - '' @ js_to_string ?lw) s1 of
                     (w, s2) \<Rightarrow> (Some w, s2)))")
    have nw: "nw \<noteq> None"
    proof (cases "newWineId ids")
      case None
      then show ?thesis using cw by (auto split: prod.splits)
    next
      case (Some w)
      have "nw = Some w" using cw by (simp add: Some)
      then show ?thesis by simp
    qed
    have step: "lookups_only s1 s2 \<and> bottleFormatMapId s2 = bottleFormatMapId s1
                \<and> bottleVintageMapId s2 = bottleVintageMapId s1"
    proof (cases "newWineId ids")
      case None
      then obtain w where "createNewWine E ?lw (''Legacy Wine - Veritas - '' @ js_to_string ?lw) s1 = (w, s2)"
        using cw by (auto split: prod.splits)
      from createNewWine_spec [OF this] show ?thesis by simp
    next
      case (Some w)
      then have "s2 = s1" using cw by simp
      then show ?thesis by (simp add: lookups_only_refl)
    qed
    have l2: "lookups_only s s2" using l1 step lookups_only_trans by blast
    have f2: "\<forall>k. format_resolves E s2 k = format_resolves E s k"
      using step f1 by (simp add: format_resolves_eqI)
    have v2: "\<forall>k. vintage_resolves E s2 k = vintage_resolves E s k"
      using step v1 by (simp add: vintage_resolves_eqI)
    have out: "(r, s') =
        (if \<not> truthy ?lw \<or> \<not> truthy ?lf \<or> \<not> truthy ?lv \<or> nw = None
            \<or> newBottleFormatId ids = None \<or> newBottleVintageId ids = None
         then (validation_failed (script_of E), s2)
         else (Some (ids\<lparr>newWineId := nw\<rparr>), s2))"
      using assms res Inr cw by (simp add: validateInventoryActivityDetail_def Let_def)
    have s': "s' = s2" using out by (simp split: if_splits)
    have fv: "(newBottleFormatId ids \<noteq> None) = format_resolves E s ?lf"
             "(newBottleVintageId ids \<noteq> None) = vintage_resolves E s ?lv"
      using p Inr by simp_all
    show ?thesis
    proof (cases "line_valid E s d")
      case True
      then have t: "truthy ?lw" "truthy ?lf" "truthy ?lv" "newBottleFormatId ids \<noteq> None"
        "newBottleVintageId ids \<noteq> None"
        using fv by (simp_all add: line_valid_def)
      obtain w f v where "nw = Some w" "newBottleFormatId ids = Some f" "newBottleVintageId ids = Some v"
        using nw t by auto
      moreover from this have "r = Some (ids\<lparr>newWineId := nw\<rparr>)" using out t by simp
      ultimately have "r = Some \<lparr>newWineId = Some w, newBottleFormatId = Some f,
                                    newBottleVintageId = Some v\<rparr>"
        by (cases ids) simp
      then show ?thesis using True s' l2 f2 v2 extends_of_lookups by blast
    next
      case False
      then have "\<not> truthy ?lw \<or> \<not> truthy ?lf \<or> \<not> truthy ?lv
                 \<or> newBottleFormatId ids = None \<or> newBottleVintageId ids = None"
        using fv by (auto simp: line_valid_def)
      then have "r = validation_failed (script_of E)" using out by auto
      then show ?thesis using False s' l2 f2 v2 extends_of_lookups by blast
    qed
  qed
qed

subsection \<open>Lines of a transfer\<close>

lemma post_fresh:
  assumes "\<forall>e \<in> set (wine_inventory_entries s). wie_operation_id e \<noteq> Some opid"
  shows "createCaseOperationInventoryEntry E opid w f v q s
           = s\<lparr>next_uuid := Suc (next_uuid s),
               wine_inventory_entries :=
                 wine_inventory_entries s @ [new_entry E (next_uuid s) opid w f v q]\<rparr>"
proof -
  have "select_entries E opid w f v s = []"
    using assms by (auto simp: select_entries_def ledger_key_def filter_empty_conv)
  then show ?thesis
    by (simp add: createCaseOperationInventoryEntry_def uuidv4_def)
qed

lemma minted_no_entry:
  assumes "minted s" and "next_uuid s \<le> n"
  shows "\<forall>e \<in> set (wine_inventory_entries s). wie_operation_id e \<noteq> Some n"
proof
  fix e assume e: "e \<in> set (wine_inventory_entries s)"
  show "wie_operation_id e \<noteq> Some n"
  proof
    assume eq: "wie_operation_id e = Some n"
    from assms(1) e have "case wie_operation_id e of None \<Rightarrow> True | Some opid \<Rightarrow> opid < next_uuid s"
      by (simp add: minted_def)
    with eq have "n < next_uuid s" by simp
    with assms(2) show False by simp
  qed
qed

lemma transfer_resolved_legs:
  assumes "transfer_resolved E s d"
  obtains src c dst where "ActivityType d = ''Bottle''" "CaseID d = Some c"
    "getCaseIdFromCaseDetail E (CaseDetailID d) s = Some src" "caseIdMap s c = Some dst"
    "transfer_legs E s d = [(src, Some ''withdrawal''), (dst, Some ''deposit'')]"
    "line_valid E s d"
  using assms
  by (auto simp: transfer_resolved_def target_case_def transfer_legs_def split: option.splits)

lemma transfer_detail_resolved:
  assumes res: "transfer_resolved E s d" and m: "minted s"
    and run: "createCaseOperationFromActivityTransferActivityDetail E g d a s = (r, s')"
  shows "r = Inr () \<and> extends E s s' \<and> minted s' \<and>
        (\<exists>n w f v src dst. next_uuid s \<le> n \<and> next_uuid s' = n + 4 \<and>
            transfer_legs E s d = [(src, Some ''withdrawal''), (dst, Some ''deposit'')] \<and>
            cases_operations s' = cases_operations s @
              [new_case_operation E n src (Some ''withdrawal'') a g,
               new_case_operation E (n + 2) dst (Some ''deposit'') a g] \<and>
            wine_inventory_entries s' = wine_inventory_entries s @
              [new_entry E (n + 1) n w f v (Quantity d),
               new_entry E (n + 3) (n + 2) w f v (Quantity d)])"
proof -
  from res obtain src c dst where d: "ActivityType d = ''Bottle''" "CaseID d = Some c"
    "getCaseIdFromCaseDetail E (CaseDetailID d) s = Some src" "caseIdMap s c = Some dst"
    and legs: "transfer_legs E s d = [(src, Some ''withdrawal''), (dst, Some ''deposit'')]"
    and valid: "line_valid E s d"
    by (rule transfer_resolved_legs)
  obtain vr s1 where val: "validateInventoryActivityDetail E d s = (vr, s1)"
    by (cases "validateInventoryActivityDetail E d s")
  note vs = validate_spec [OF val]
  from vs valid obtain w f v where vr:
    "vr = Some \<lparr>newWineId = Some w, newBottleFormatId = Some f, newBottleVintageId = Some v\<rparr>"
    by blast
  have l1: "lookups_only s s1" and e1: "extends E s s1" using vs by simp_all
  let ?n = "next_uuid s1"
  let ?q = "Quantity d"
  have ops1: "cases_operations s1 = cases_operations s"
    and ent1: "wine_inventory_entries s1 = wine_inventory_entries s"
    and n: "next_uuid s \<le> ?n"
    using l1 by (simp_all add: lookups_only_def)
  define s2 where "s2 = insert_case_operation E ?n src (Some ''withdrawal'') a g
                          (s1\<lparr>next_uuid := Suc ?n\<rparr>)"
  have fresh2: "\<forall>e \<in> set (wine_inventory_entries s2). wie_operation_id e \<noteq> Some ?n"
    using minted_no_entry [OF m n] by (simp add: s2_def insert_case_operation_def ent1)
  define s3 where "s3 = createCaseOperationInventoryEntry E ?n w f v ?q s2"
  have s3: "s3 = s2\<lparr>next_uuid := Suc (next_uuid s2),
               wine_inventory_entries :=
                 wine_inventory_entries s2 @ [new_entry E (next_uuid s2) ?n w f v ?q]\<rparr>"
    unfolding s3_def by (rule post_fresh [OF fresh2])
  have n3: "next_uuid s3 = ?n + 2" by (simp add: s3 s2_def insert_case_operation_def)
  define s4 where "s4 = insert_case_operation E (?n + 2) dst (Some ''deposit'') a g
                          (s3\<lparr>next_uuid := Suc (?n + 2)\<rparr>)"
  have ent4: "wine_inventory_entries s4 = wine_inventory_entries s @ [new_entry E (?n + 1) ?n w f v ?q]"
    by (simp add: s4_def s3 s2_def insert_case_operation_def ent1)
  have "\<forall>e \<in> set (wine_inventory_entries s). wie_operation_id e \<noteq> Some (?n + 2)"
    using minted_no_entry [OF m, of "?n + 2"] n by simp
  then have fresh4: "\<forall>e \<in> set (wine_inventory_entries s4). wie_operation_id e \<noteq> Some (?n + 2)"
    by (simp add: ent4 new_entry_def)
  define s5 where "s5 = createCaseOperationInventoryEntry E (?n + 2) w f v ?q s4"
  have s5: "s5 = s4\<lparr>next_uuid := Suc (next_uuid s4),
               wine_inventory_entries :=
                 wine_inventory_entries s4 @ [new_entry E (next_uuid s4) (?n + 2) w f v ?q]\<rparr>"
    unfolding s5_def by (rule post_fresh [OF fresh4])
  have n4: "next_uuid s4 = ?n + 3" by (simp add: s4_def insert_case_operation_def)
  have c1: "createCaseOperationFromActivityTransfer E g a src ''withdrawal'' s1 = (?n, s2)"
    by (simp add: createCaseOperationFromActivityTransfer_def uuidv4_def s2_def)
  have c2: "createCaseOperationFromActivityTransfer E g a dst ''deposit'' s3 = (?n + 2, s4)"
    by (simp add: createCaseOperationFromActivityTransfer_def uuidv4_def s4_def n3)
  have c3: "createCaseOperationInventoryEntry E (Suc (Suc ?n)) w f v ?q s4 = s5"
    by (simp add: s5_def)
  have out: "(r, s') = (Inr (), s5)"
    using run d val vr c1 c2 c3
    by (auto simp: createCaseOperationFromActivityTransferActivityDetail_def
          s3_def [symmetric])
  then have r: "r = Inr ()" and s': "s' = s5" by simp_all
  have ops5: "cases_operations s5 = cases_operations s @
              [new_case_operation E ?n src (Some ''withdrawal'') a g,
               new_case_operation E (?n + 2) dst (Some ''deposit'') a g]"
    by (simp add: s5 s4_def s3 s2_def insert_case_operation_def ops1)
  have ent5: "wine_inventory_entries s5 = wine_inventory_entries s @
              [new_entry E (?n + 1) ?n w f v ?q, new_entry E (?n + 3) (?n + 2) w f v ?q]"
    by (simp add: s5 ent4 n4)
  have n5: "next_uuid s5 = ?n + 4" by (simp add: s5 n4)
  have lo: "users s5 = users s1 \<and> cases s5 = cases s1
      \<and> wine_bottle_formats s5 = wine_bottle_formats s1
      \<and> wine_bottle_vintages s5 = wine_bottle_vintages s1
      \<and> operations_groups s5 = operations_groups s1
      \<and> customerIdMap s5 = customerIdMap s1 \<and> caseIdMap s5 = caseIdMap s1
      \<and> bottleFormatMapId s5 = bottleFormatMapId s1
      \<and> bottleVintageMapId s5 = bottleVintageMapId s1"
    by (simp add: s5 s4_def s3 s2_def insert_case_operation_def)
  have "extends E s1 s5"
    using lo n5 by (simp add: extends_def format_resolves_def vintage_resolves_def)
  then have ext: "extends E s s5" using e1 extends_trans by blast
  have mint: "minted s5"
    using m n unfolding minted_def ops5 ent5 n5
    by (auto simp: new_case_operation_def new_entry_def split: option.splits)
  show ?thesis
    using r s' ext mint n legs ops5 ent5 n5 by blast
qed

lemma minted_lookups: "minted s \<Longrightarrow> lookups_only s s' \<Longrightarrow> minted s'"
  unfolding minted_def lookups_only_def
  by (auto split: option.splits)

lemma validation_failed_cases:
  "validation_failed sc = None \<or>
   validation_failed sc = Some \<lparr>newWineId = None, newBottleFormatId = None, newBottleVintageId = None\<rparr>"
  by (cases sc) (simp_all add: validation_failed_def)

lemma transfer_detail_unresolved:
  assumes nres: "\<not> transfer_resolved E s d"
    and run: "createCaseOperationFromActivityTransferActivityDetail E g d a s = (r, s')"
  shows "lookups_only s s' \<and> extends E s s'"
proof (cases "ActivityType d = ''Bottle'' \<and> getCaseIdFromCaseDetail E (CaseDetailID d) s \<noteq> None
               \<and> target_case s d \<noteq> None")
  case False
  then have "s' = s"
    using run
    by (auto simp: createCaseOperationFromActivityTransferActivityDetail_def target_case_def
          split: option.splits if_splits)
  then show ?thesis by (simp add: lookups_only_refl extends_refl)
next
  case True
  then obtain src c dst where d: "ActivityType d = ''Bottle''" "CaseID d = Some c"
    "getCaseIdFromCaseDetail E (CaseDetailID d) s = Some src" "caseIdMap s c = Some dst"
    by (auto simp: target_case_def split: option.splits)
  from True nres have inv: "\<not> line_valid E s d" by (simp add: transfer_resolved_def)
  obtain vr s1 where val: "validateInventoryActivityDetail E d s = (vr, s1)"
    by (cases "validateInventoryActivityDetail E d s")
  note vs = validate_spec [OF val]
  from vs inv have vr: "vr = validation_failed (script_of E)" by simp
  have "s' = s1"
    using run d val vr validation_failed_cases [of "script_of E"]
    by (auto simp: createCaseOperationFromActivityTransferActivityDetail_def)
  then show ?thesis using vs by simp
qed


lemma getWineProp_caseIdMap:
  assumes "caseIdMap s' = caseIdMap s"
  shows "getWinePropFromCaseDetail E k p s' = getWinePropFromCaseDetail E k p s"
  using assms
  by (auto simp: getWinePropFromCaseDetail_def split: script.splits option.splits)

lemma extends_legacy_ids:
  assumes "extends E s s'"
  shows "legacy_wine_of E s' d = legacy_wine_of E s d"
    and "legacy_format_of E s' d = legacy_format_of E s d"
    and "legacy_vintage_of E s' d = legacy_vintage_of E s d"
proof -
  have "caseIdMap s' = caseIdMap s" using assms by (simp add: extends_def)
  note eq = getWineProp_caseIdMap [OF this]
  show "legacy_wine_of E s' d = legacy_wine_of E s d"
    by (simp add: legacy_wine_of_def eq)
  show "legacy_format_of E s' d = legacy_format_of E s d"
    by (simp add: legacy_format_of_def eq)
  show "legacy_vintage_of E s' d = legacy_vintage_of E s d"
    by (simp add: legacy_vintage_of_def eq)
qed

lemma extends_line_valid:
  assumes "extends E s s'"
  shows "line_valid E s' d = line_valid E s d"
  using assms extends_legacy_ids [OF assms]
  by (simp add: line_valid_def extends_def)

lemma extends_target_case:
  assumes "extends E s s'"
  shows "target_case s' d = target_case s d"
    and "getCaseIdFromCaseDetail E k s' = getCaseIdFromCaseDetail E k s"
  using assms
  by (auto simp: extends_def target_case_def getCaseIdFromCaseDetail_def split: option.splits)

lemma extends_transfer_resolved:
  assumes "extends E s s'"
  shows "transfer_resolved E s' d = transfer_resolved E s d"
    and "transfer_legs E s' d = transfer_legs E s d"
  using extends_line_valid [OF assms] extends_target_case [OF assms]
  by (simp_all add: transfer_resolved_def transfer_legs_def)

subsection \<open>Totals of a transfer\<close>

lemma posted_total_lookups:
  assumes "lookups_only s s'"
  shows "posted_total g ty s' = posted_total g ty s"
proof -
  have "cases_operations s' = cases_operations s" "wine_inventory_entries s' = wine_inventory_entries s"
    using assms by (simp_all add: lookups_only_def)
  then have "posted_to g ty s' = posted_to g ty s"
    by (simp add: posted_to_def fun_eq_iff)
  then show ?thesis
    using \<open>wine_inventory_entries s' = wine_inventory_entries s\<close> by (simp add: posted_total_def)
qed

lemma transfer_detail_totals:
  assumes m: "minted s"
    and run: "createCaseOperationFromActivityTransferActivityDetail E g d a s = (r, s')"
  shows "posted_total g' ty s' = posted_total g' ty s
           + (if transfer_resolved E s d \<and> g' = g \<and> (ty = ''withdrawal'' \<or> ty = ''deposit'')
              then Quantity d else 0)"
proof (cases "transfer_resolved E s d")
  case False
  from transfer_detail_unresolved [OF False run] have "lookups_only s s'" by simp
  from posted_total_lookups [OF this] False show ?thesis by simp
next
  case True
  from transfer_detail_resolved [OF True m run]
  obtain n w f v src dst where n: "next_uuid s \<le> n"
    and ops: "cases_operations s' = cases_operations s @
              [new_case_operation E n src (Some ''withdrawal'') a g,
               new_case_operation E (n + 2) dst (Some ''deposit'') a g]"
    and ent: "wine_inventory_entries s' = wine_inventory_entries s @
              [new_entry E (n + 1) n w f v (Quantity d),
               new_entry E (n + 3) (n + 2) w f v (Quantity d)]"
    by blast
  have oldops: "\<forall>co \<in> set (cases_operations s). co_id co \<noteq> n \<and> co_id co \<noteq> n + 2"
    using m n by (auto simp: minted_def)
  have old: "posted_to g' ty s' e = posted_to g' ty s e" if "e \<in> set (wine_inventory_entries s)" for e
  proof (cases "wie_operation_id e")
    case None
    then show ?thesis by (simp add: posted_to_def list_ex_iff)
  next
    case (Some k)
    with m that have "k < next_uuid s" by (auto simp: minted_def split: option.splits)
    with n have "k \<noteq> n" "k \<noteq> n + 2" by simp_all
    then show ?thesis using Some by (auto simp: posted_to_def ops new_case_operation_def)
  qed
  have p1: "posted_to g' ty s' (new_entry E (n + 1) n w f v (Quantity d))
              = (g' = g \<and> ty = ''withdrawal'')"
    using oldops
    by (auto simp: posted_to_def ops new_entry_def new_case_operation_def list_ex_iff)
  have p2: "posted_to g' ty s' (new_entry E (n + 3) (n + 2) w f v (Quantity d))
              = (g' = g \<and> ty = ''deposit'')"
    using oldops
    by (auto simp: posted_to_def ops new_entry_def new_case_operation_def list_ex_iff)
  have "filter (posted_to g' ty s') (wine_inventory_entries s)
          = filter (posted_to g' ty s) (wine_inventory_entries s)"
    using old by (simp cong: filter_cong)
  then show ?thesis
    using True p1 p2 by (auto simp: posted_total_def ent new_entry_def)
qed

lemma transfer_detail_step:
  assumes m: "minted s"
    and run: "createCaseOperationFromActivityTransferActivityDetail E g d a s = (r, s')"
  shows "extends E s s' \<and> minted s'"
proof (cases "transfer_resolved E s d")
  case True
  from transfer_detail_resolved [OF True m run] show ?thesis by blast
next
  case False
  from transfer_detail_unresolved [OF False run] minted_lookups [OF m] show ?thesis by blast
qed


lemma transfer_loop_conservation:
  assumes "minted s" and "transfer_loop E g a ds s = (r, s')"
  shows "posted_total g ''withdrawal'' s' - posted_total g ''withdrawal'' s
           = posted_total g ''deposit'' s' - posted_total g ''deposit'' s"
  using assms
proof (induction ds arbitrary: s)
  case Nil
  then show ?case by simp
next
  case (Cons d ds)
  obtain r1 s1 where st: "createCaseOperationFromActivityTransferActivityDetail E g d a s = (r1, s1)"
    by (cases "createCaseOperationFromActivityTransferActivityDetail E g d a s")
  note one = transfer_detail_step [OF Cons.prems(1) st]
  note tw = transfer_detail_totals [OF Cons.prems(1) st, of g "''withdrawal''"]
  note td = transfer_detail_totals [OF Cons.prems(1) st, of g "''deposit''"]
  show ?case
  proof (cases r1)
    case (Inl e)
    then have "s' = s1" using Cons.prems(2) st by simp
    then show ?thesis using tw td by simp
  next
    case (Inr u)
    then have "transfer_loop E g a ds s1 = (r, s')" using Cons.prems(2) st by simp
    from Cons.IH [OF _ this] one tw td show ?thesis by simp
  qed
qed

lemma transfer_loop_total:
  assumes "minted s" and "transfer_loop E g a ds s = (Inr (), s')"
  shows "posted_total g ''withdrawal'' s'
           = posted_total g ''withdrawal'' s
             + sum_list (map Quantity (filter (transfer_resolved E s) ds))"
  using assms
proof (induction ds arbitrary: s)
  case Nil
  then show ?case by simp
next
  case (Cons d ds)
  obtain r1 s1 where st: "createCaseOperationFromActivityTransferActivityDetail E g d a s = (r1, s1)"
    by (cases "createCaseOperationFromActivityTransferActivityDetail E g d a s")
  note one = transfer_detail_step [OF Cons.prems(1) st]
  note tw = transfer_detail_totals [OF Cons.prems(1) st, of g "''withdrawal''"]
  from Cons.prems(2) st obtain u where r1: "r1 = Inr u" by (cases r1) auto
  then have rest: "transfer_loop E g a ds s1 = (Inr (), s')" using Cons.prems(2) st by simp
  have e1: "extends E s s1" using one by simp
  have "transfer_resolved E s1 = transfer_resolved E s"
    by (simp add: fun_eq_iff extends_transfer_resolved(1) [OF e1])
  then have "filter (transfer_resolved E s1) ds = filter (transfer_resolved E s) ds"
    by simp
  with Cons.IH [OF _ rest] one tw show ?case by simp
qed

subsection \<open>Operations of a transfer\<close>



subsection \<open>Conservation and fresh operations of transfers\<close>

text \<open>
  Claim C1. From a store whose identifiers were minted by the counter, reconciling a
  transfer activity under a group changes the total posted to the group's withdrawal
  operations and the total posted to its deposit operations by the same amount, also
  when the run is cut short by an exception; when it returns normally that amount is the
  sum of the quantities of the fully resolved Bottle lines. Each such line appends one
  withdrawal operation on the source case and one deposit operation on the destination
  case and posts one entry with the line's quantity to each.
\<close>

theorem transfer_conservation:
  "(minted s \<and> createCaseOperationsFromActivityTransfer E g a s = (r, s') \<longrightarrow>
      posted_total g ''withdrawal'' s' - posted_total g ''withdrawal'' s
        = posted_total g ''deposit'' s' - posted_total g ''deposit'' s
      \<and> (r = Inr () \<longrightarrow>
            posted_total g ''withdrawal'' s' - posted_total g ''withdrawal'' s
              = sum_list (map Quantity (filter (transfer_resolved E s)
                                           (getInventoryActivityDetails E a)))))
   \<and> (minted s0 \<and> transfer_resolved E s0 d
        \<and> createCaseOperationFromActivityTransferActivityDetail E g d a s0 = (r0, s1) \<longrightarrow>
      r0 = Inr ()
      \<and> (\<exists>n w f v src dst.
            transfer_legs E s0 d = [(src, Some ''withdrawal''), (dst, Some ''deposit'')]
            \<and> cases_operations s1 = cases_operations s0 @
                 [new_case_operation E n src (Some ''withdrawal'') a g,
                  new_case_operation E (n + 2) dst (Some ''deposit'') a g]
            \<and> wine_inventory_entries s1 = wine_inventory_entries s0 @
                 [new_entry E (n + 1) n w f v (Quantity d),
                  new_entry E (n + 3) (n + 2) w f v (Quantity d)]))"
proof (intro conjI impI)
  assume h: "minted s \<and> createCaseOperationsFromActivityTransfer E g a s = (r, s')"
  then have m: "minted s"
    and run: "transfer_loop E g a (getInventoryActivityDetails E a) s = (r, s')"
    by (simp_all add: createCaseOperationsFromActivityTransfer_def)
  show "posted_total g ''withdrawal'' s' - posted_total g ''withdrawal'' s
        = posted_total g ''deposit'' s' - posted_total g ''deposit'' s"
    by (rule transfer_loop_conservation [OF m run])
  assume "r = Inr ()"
  with run have "transfer_loop E g a (getInventoryActivityDetails E a) s = (Inr (), s')" by simp
  from transfer_loop_total [OF m this]
  show "posted_total g ''withdrawal'' s' - posted_total g ''withdrawal'' s
          = sum_list (map Quantity (filter (transfer_resolved E s)
                                           (getInventoryActivityDetails E a)))"
    by simp
next
  assume h: "minted s0 \<and> transfer_resolved E s0 d
        \<and> createCaseOperationFromActivityTransferActivityDetail E g d a s0 = (r0, s1)"
  then have m: "minted s0" and res: "transfer_resolved E s0 d"
    and run: "createCaseOperationFromActivityTransferActivityDetail E g d a s0 = (r0, s1)"
    by simp_all
  note one = transfer_detail_resolved [OF res m run]
  from one show "r0 = Inr ()" by simp
  from one show "\<exists>n w f v src dst.
            transfer_legs E s0 d = [(src, Some ''withdrawal''), (dst, Some ''deposit'')]
            \<and> cases_operations s1 = cases_operations s0 @
                 [new_case_operation E n src (Some ''withdrawal'') a g,
                  new_case_operation E (n + 2) dst (Some ''deposit'') a g]
            \<and> wine_inventory_entries s1 = wine_inventory_entries s0 @
                 [new_entry E (n + 1) n w f v (Quantity d),
                  new_entry E (n + 3) (n + 2) w f v (Quantity d)]"
    by blast
qed

theorem transfer_conservation_witness:
  "minted example_store
   \<and> transfer_resolved (env_of Seeder example_data) example_store
        (line 4 502 ''Bottle'' 30 (Some 5) (Some 8) (Some 1) 4)
   \<and> fst (createCaseOperationsFromActivityTransfer (env_of Seeder example_data) 77
            (act 502 ''T'' 1) example_store) = Inr ()
   \<and> posted_total 77 ''withdrawal''
        (snd (createCaseOperationsFromActivityTransfer (env_of Seeder example_data) 77
               (act 502 ''T'' 1) example_store)) = 10
   \<and> posted_total 77 ''deposit''
        (snd (createCaseOperationsFromActivityTransfer (env_of Seeder example_data) 77
               (act 502 ''T'' 1) example_store)) = 10
   \<and> fst (createCaseOperationFromActivityTransferActivityDetail (env_of Seeder example_data) 77
            (line 4 502 ''Bottle'' 30 (Some 5) (Some 8) (Some 1) 4) (act 502 ''T'' 1)
            example_store) = Inr ()"
proof -
  let ?E = "env_of Seeder example_data" and ?a = "act 502 ''T'' 1"
  let ?d = "line 4 502 ''Bottle'' 30 (Some 5) (Some 8) (Some 1) 4"
  let ?run = "createCaseOperationsFromActivityTransfer ?E 77 ?a example_store"
  let ?one = "createCaseOperationFromActivityTransferActivityDetail ?E 77 ?d ?a example_store"
  have m: "minted example_store" by code_simp
  have ok: "fst ?run = Inr ()" by code_simp
  have res: "transfer_resolved ?E example_store ?d" by code_simp
  have zero: "posted_total 77 ''withdrawal'' example_store = 0"
    "posted_total 77 ''deposit'' example_store = 0" by code_simp+
  have total: "sum_list (map Quantity (filter (transfer_resolved ?E example_store)
                 (getInventoryActivityDetails ?E ?a))) = 10" by code_simp
  have run: "?run = (Inr (), snd ?run)" using ok by (simp add: prod_eq_iff)
  have one: "?one = (fst ?one, snd ?one)" by simp
  show ?thesis
    using transfer_conservation [where s = example_store and E = ?E and g = 77 and a = ?a
        and r = "Inr ()" and s' = "snd ?run" and ?s0.0 = example_store and d = ?d
        and ?r0.0 = "fst ?one" and ?s1.0 = "snd ?one"]
      m ok res zero total run one
    by simp
qed



subsection \<open>Lines of a deposit or withdrawal\<close>

lemma post_frame:
  "extends E s (createCaseOperationInventoryEntry E opid w f v q s)
   \<and> cases_operations (createCaseOperationInventoryEntry E opid w f v q s) = cases_operations s"
  by (simp add: createCaseOperationInventoryEntry_def uuidv4_def extends_def
        format_resolves_def vintage_resolves_def split: list.splits)


lemma createCaseOperationFromActivityDetail_spec:
  assumes "createCaseOperationFromActivityDetail E g d a s = (r, s')"
  shows "extends E s s'
         \<and> (case target_case s d of
               None \<Rightarrow> cases_operations s' = cases_operations s \<and> r \<noteq> Inr (Some (next_uuid s)) \<and> (\<forall>x. r \<noteq> Inr (Some x))
             | Some cid \<Rightarrow>
                 r = Inr (Some (next_uuid s))
                 \<and> cases_operations s' = cases_operations s @
                      [new_case_operation E (next_uuid s) cid
                         (parseActivityTransactionType (script_of E) a) a g])"
  using assms
  by (auto simp: createCaseOperationFromActivityDetail_def uuidv4_def target_case_def
        insert_case_operation_def extends_def format_resolves_def vintage_resolves_def
        split: option.splits)

lemma getCaseOperationFromActivityDetail_spec:
  assumes "getCaseOperationFromActivityDetail E g d a s = (r, s')"
  shows "extends E s s'
         \<and> (case target_case s d of
               None \<Rightarrow> cases_operations s' = cases_operations s \<and> (\<forall>x. r \<noteq> Inr (Some x))
             | Some cid \<Rightarrow>
                 (case select_case_operations E g cid s of
                    [] \<Rightarrow> r = Inr (Some (next_uuid s))
                          \<and> cases_operations s' = cases_operations s @
                               [new_case_operation E (next_uuid s) cid
                                  (parseActivityTransactionType (script_of E) a) a g]
                  | co # cos \<Rightarrow> r = Inr (Some (co_id co)) \<and> s' = s))"
proof (cases "target_case s d")
  case None
  then have "s' = s \<and> (\<forall>x. r \<noteq> Inr (Some x))"
    using assms
    by (auto simp: getCaseOperationFromActivityDetail_def target_case_def
          split: option.splits script.splits)
  then show ?thesis using None by (simp add: extends_refl)
next
  case (Some cid)
  then obtain c where c: "CaseID d = Some c" "caseIdMap s c = Some cid"
    by (auto simp: target_case_def split: option.splits)
  then have g: "getCaseOperation E g cid a d s = (r, s')"
    using assms by (simp add: getCaseOperationFromActivityDetail_def)
  show ?thesis
  proof (cases "select_case_operations E g cid s")
    case Nil
    then have "createCaseOperationFromActivityDetail E g d a s = (r, s')"
      using g by (simp add: getCaseOperation_def)
    from createCaseOperationFromActivityDetail_spec [OF this] Some Nil show ?thesis by simp
  next
    case (Cons co cos)
    then have "r = Inr (Some (co_id co))" "s' = s" using g by (simp_all add: getCaseOperation_def)
    then show ?thesis using Some Cons by (simp add: extends_refl)
  qed
qed

lemma deposit_detail_after_lookup:
  assumes run: "createOrUpdateCaseOperationFromActivityDepositOrWithdrawalActivityDetail E g d a s = (r, s')"
    and look: "getCaseOperationFromActivityDetail E g d a s = (r1, s1)"
  shows "extends E s1 s' \<and> cases_operations s' = cases_operations s1"
proof (cases r1)
  case (Inl e)
  then have "s' = s1" using run look
    by (simp add: createOrUpdateCaseOperationFromActivityDepositOrWithdrawalActivityDetail_def)
  then show ?thesis by (simp add: extends_refl)
next
  case (Inr x)
  show ?thesis
  proof (cases x)
    case None
    then have "s' = s1" using run look Inr
      by (simp add: createOrUpdateCaseOperationFromActivityDepositOrWithdrawalActivityDetail_def)
    then show ?thesis by (simp add: extends_refl)
  next
    case (Some operationId)
    obtain vr s2 where val: "validateInventoryActivityDetail E d s1 = (vr, s2)"
      by (cases "validateInventoryActivityDetail E d s1")
    note vs = validate_spec [OF val]
    have e2: "extends E s1 s2" and o2: "cases_operations s2 = cases_operations s1"
      using vs by (simp_all add: lookups_only_def)
    have "s' = s2 \<or> (\<exists>w f v. s' = createCaseOperationInventoryEntry E operationId w f v (Quantity d) s2)"
      using run look Inr Some val
      by (auto simp: createOrUpdateCaseOperationFromActivityDepositOrWithdrawalActivityDetail_def
            split: option.splits)
    then show ?thesis
    proof
      assume "s' = s2"
      then show ?thesis using e2 o2 by simp
    next
      assume "\<exists>w f v. s' = createCaseOperationInventoryEntry E operationId w f v (Quantity d) s2"
      then obtain w f v where
        s': "s' = createCaseOperationInventoryEntry E operationId w f v (Quantity d) s2" by blast
      from post_frame [of E s2 operationId w f v "Quantity d"] e2 o2 s' extends_trans
      show ?thesis by metis
    qed
  qed
qed

lemma deposit_detail_ops:
  assumes run: "createOrUpdateCaseOperationFromActivityDepositOrWithdrawalActivityDetail E g d a s = (r, s')"
  shows "extends E s s'
         \<and> (case target_case s d of
               None \<Rightarrow> cases_operations s' = cases_operations s
             | Some cid \<Rightarrow>
                 (case select_case_operations E g cid s of
                    [] \<Rightarrow> cases_operations s' = cases_operations s @
                               [new_case_operation E (next_uuid s) cid
                                  (parseActivityTransactionType (script_of E) a) a g]
                  | co # cos \<Rightarrow> cases_operations s' = cases_operations s))"
proof -
  obtain r1 s1 where look: "getCaseOperationFromActivityDetail E g d a s = (r1, s1)"
    by (cases "getCaseOperationFromActivityDetail E g d a s")
  note a = getCaseOperationFromActivityDetail_spec [OF look]
  note b = deposit_detail_after_lookup [OF run look]
  have "extends E s s'" using a b extends_trans by blast
  moreover have "cases_operations s' = cases_operations s1" using b by simp
  ultimately show ?thesis using a
    by (auto split: option.splits list.splits)
qed





subsection \<open>One case operation per group and case\<close>







subsection \<open>Placeholder wines\<close>

lemma getNewWineId_cases:
  assumes "getNewWineId E k s = (r, s')"
  shows "(\<exists>w. wineMapId s k = Some w \<and> r = Inr (Some w) \<and> s' = s)
       \<or> (wineMapId s k = None \<and> (\<forall>m. k \<noteq> Num m) \<and> r = Inl TypeError \<and> s' = s)
       \<or> (\<exists>m. k = Num m \<and> wineMapId s k = None \<and> select_wines E m s = []
               \<and> r = Inr None \<and> s' = s)
       \<or> (\<exists>m p ps. k = Num m \<and> wineMapId s k = None \<and> select_wines E m s = p # ps
               \<and> r = Inr (Some (wine_id p))
               \<and> s' = s\<lparr>wineMapId := (wineMapId s)(k \<mapsto> wine_id p)\<rparr>)"
  using assms
  by (cases k) (auto simp: getNewWineId_def split: option.splits list.splits)

lemma getNewBottleFormatId_counter:
  assumes "getNewBottleFormatId E k s = (r, s')"
  shows "next_uuid s' = next_uuid s"
  using assms
  by (cases k) (auto simp: getNewBottleFormatId_def split: option.splits list.splits)

lemma getNewBottleVintageId_counter:
  assumes "getNewBottleVintageId E k s = (r, s')"
  shows "next_uuid s' = next_uuid s"
  using assms
  by (cases k) (auto simp: getNewBottleVintageId_def split: option.splits list.splits)

lemma resolve_new_ids_wine:
  assumes "resolve_new_ids E lw lf lv s = (rr, s3)"
  shows "\<exists>r1 s1. getNewWineId E lw s = (r1, s1) \<and> wines s3 = wines s1
           \<and> wineMapId s3 = wineMapId s1 \<and> next_uuid s3 = next_uuid s1
           \<and> (\<forall>ids. rr = Inr ids \<longrightarrow> r1 = Inr (newWineId ids))"
proof -
  obtain r1 s1 where g1: "getNewWineId E lw s = (r1, s1)" by (cases "getNewWineId E lw s")
  obtain r2 s2 where g2: "getNewBottleFormatId E lf s1 = (r2, s2)" by (cases "getNewBottleFormatId E lf s1")
  obtain r3 s3' where g3: "getNewBottleVintageId E lv s2 = (r3, s3')" by (cases "getNewBottleVintageId E lv s2")
  note p2 = getNewBottleFormatId_spec [OF g2] getNewBottleFormatId_counter [OF g2]
  note p3 = getNewBottleVintageId_spec [OF g3] getNewBottleVintageId_counter [OF g3]
  have "wines s3 = wines s1 \<and> wineMapId s3 = wineMapId s1 \<and> next_uuid s3 = next_uuid s1
           \<and> (\<forall>ids. rr = Inr ids \<longrightarrow> r1 = Inr (newWineId ids))"
    using assms g1 g2 g3 p2 p3
    by (cases r1; cases r2; cases r3) (auto simp: resolve_new_ids_def)
  with g1 show ?thesis by blast
qed

lemma select_wines_cong:
  "wines s' = wines s \<Longrightarrow> select_wines E m s' = select_wines E m s"
  by (simp add: select_wines_def)

lemma createNewWine_missing:
  assumes "select_wines E m s = []"
  shows "createNewWine E (Num m) (''Legacy Wine - Veritas - '' @ js_to_string (Num m)) s
           = (next_uuid s,
              s\<lparr>next_uuid := Suc (next_uuid s),
                wines := wines s @ [placeholder_wine E (next_uuid s) m]\<rparr>)"
  using assms
  by (cases "script_of E")
     (simp_all add: createNewWine_def insert_wine_def uuidv4_def placeholder_wine_def)

lemma validation_failed_wine:
  "validation_failed sc = Some ids \<Longrightarrow> newWineId ids = None"
  by (cases sc) (auto simp: validation_failed_def)

lemma validate_wine_cases:
  assumes run: "validateInventoryActivityDetail E d s = (r, s')"
  shows "(wines s' = wines s \<and> next_uuid s' = next_uuid s
          \<and> ((wineMapId s' = wineMapId s
                \<and> (\<forall>ids. r = Some ids \<and> newWineId ids \<noteq> None
                       \<longrightarrow> newWineId ids = wineMapId s (legacy_wine_of E s d)))
             \<or> (\<exists>m p ps. legacy_wine_of E s d = Num m \<and> wineMapId s (Num m) = None
                    \<and> select_wines E m s = p # ps
                    \<and> wineMapId s' = (wineMapId s)(Num m \<mapsto> wine_id p)
                    \<and> (\<forall>ids. r = Some ids \<and> newWineId ids \<noteq> None
                           \<longrightarrow> newWineId ids = Some (wine_id p)))))
       \<or> (\<exists>m. legacy_wine_of E s d = Num m \<and> wineMapId s (Num m) = None
              \<and> select_wines E m s = []
              \<and> wines s' = wines s @ [placeholder_wine E (next_uuid s) m]
              \<and> wineMapId s' = wineMapId s \<and> next_uuid s' = Suc (next_uuid s)
              \<and> (\<forall>ids. r = Some ids \<and> newWineId ids \<noteq> None
                     \<longrightarrow> newWineId ids = Some (next_uuid s)))"
proof -
  let ?k = "legacy_wine_of E s d" and ?lf = "legacy_format_of E s d"
    and ?lv = "legacy_vintage_of E s d"
  obtain rr s3 where res: "resolve_new_ids E ?k ?lf ?lv s = (rr, s3)"
    by (cases "resolve_new_ids E ?k ?lf ?lv s")
  from resolve_new_ids_wine [OF res] obtain r1 s1 where
    g1: "getNewWineId E ?k s = (r1, s1)" and w3: "wines s3 = wines s1"
    and m3: "wineMapId s3 = wineMapId s1" and n3: "next_uuid s3 = next_uuid s1"
    and rid: "\<forall>ids. rr = Inr ids \<longrightarrow> r1 = Inr (newWineId ids)"
    by blast
  note fw = validation_failed_wine [of "script_of E"]
  show ?thesis
  proof (cases rr)
    case (Inl e)
    then have out: "r = validation_failed (script_of E)" "s' = s3"
      using run res by (simp_all add: validateInventoryActivityDetail_def)
    from getNewWineId_cases [OF g1] w3 m3 n3 out fw show ?thesis
      by (elim disjE exE conjE) auto
  next
    case (Inr ids)
    with rid have r1: "r1 = Inr (newWineId ids)" by simp
    show ?thesis
    proof (cases "newWineId ids")
      case (Some w)
      then have out: "s' = s3"
        "r = validation_failed (script_of E) \<or> r = Some (ids\<lparr>newWineId := Some w\<rparr>)"
        using run res Inr by (auto simp: validateInventoryActivityDetail_def Let_def split: if_splits)
      from getNewWineId_cases [OF g1] r1 Some
      consider (hit) "wineMapId s ?k = Some w" "s1 = s"
        | (db) m p ps where "?k = Num m" "wineMapId s ?k = None" "select_wines E m s = p # ps"
            "w = wine_id p" "s1 = s\<lparr>wineMapId := (wineMapId s)(?k \<mapsto> wine_id p)\<rparr>"
        by auto
      then show ?thesis
      proof cases
        case hit
        then show ?thesis using out w3 m3 n3 fw by auto
      next
        case db
        have "wines s' = wines s \<and> next_uuid s' = next_uuid s
              \<and> wineMapId s' = (wineMapId s)(Num m \<mapsto> wine_id p)"
          using db out w3 m3 n3 by simp
        moreover have "\<forall>ids'. r = Some ids' \<and> newWineId ids' \<noteq> None
                           \<longrightarrow> newWineId ids' = Some (wine_id p)"
          using out db fw by auto
        ultimately show ?thesis using db by auto
      qed
    next
      case None
      from getNewWineId_cases [OF g1] r1 None
      obtain m where k: "?k = Num m" and memo: "wineMapId s ?k = None"
        and sel: "select_wines E m s = []" and s1: "s1 = s"
        by auto
      have sel3: "select_wines E m s3 = []"
        using sel w3 s1 by (simp add: select_wines_def)
      note cw = createNewWine_missing [OF sel3]
      let ?s4 = "s3\<lparr>next_uuid := Suc (next_uuid s3),
                wines := wines s3 @ [placeholder_wine E (next_uuid s3) m]\<rparr>"
      have out: "s' = ?s4"
        "r = validation_failed (script_of E) \<or> r = Some (ids\<lparr>newWineId := Some (next_uuid s3)\<rparr>)"
        using run res Inr None k cw
        by (auto simp: validateInventoryActivityDetail_def Let_def split: if_splits)
      have "wines s' = wines s @ [placeholder_wine E (next_uuid s) m]
              \<and> wineMapId s' = wineMapId s \<and> next_uuid s' = Suc (next_uuid s)"
        using out w3 m3 n3 s1 by simp
      moreover have "\<forall>ids'. r = Some ids' \<and> newWineId ids' \<noteq> None
                     \<longrightarrow> newWineId ids' = Some (next_uuid s)"
        using out fw n3 s1 by auto
      ultimately show ?thesis using k memo sel by auto
    qed
  qed
qed

lemma wine_memo_ok_keep:
  "wine_memo_ok E n s \<Longrightarrow> wines s' = wines s \<Longrightarrow> wineMapId s' = wineMapId s
   \<Longrightarrow> wine_memo_ok E n s'"
  by (simp add: wine_memo_ok_def select_wines_def)

lemma select_wines_append:
  "wines s' = wines s @ [placeholder_wine E i m]
   \<Longrightarrow> select_wines E n s' = select_wines E n s @ (if n = m then [placeholder_wine E i m] else [])"
  by (auto simp: select_wines_def placeholder_wine_def)

lemma validate_wine_ok:
  assumes run: "validateInventoryActivityDetail E d s = (r, s')"
    and ok: "wine_memo_ok E n s"
  shows "wine_memo_ok E n s'"
  using validate_wine_cases [OF run]
proof (elim disjE exE conjE)
  assume "wines s' = wines s" "wineMapId s' = wineMapId s"
  then show ?thesis using ok by (blast intro: wine_memo_ok_keep)
next
  fix m p ps
  assume w: "wines s' = wines s" and sel: "select_wines E m s = p # ps"
    and memo: "wineMapId s' = (wineMapId s)(Num m \<mapsto> wine_id p)"
  have same: "select_wines E n s' = select_wines E n s" using w by (rule select_wines_cong)
  show ?thesis
  proof (cases "n = m")
    case True
    with ok sel have "ps = []" by (simp add: wine_memo_ok_def)
    with True sel same memo show ?thesis by (simp add: wine_memo_ok_def)
  next
    case False
    with ok same memo show ?thesis by (simp add: wine_memo_ok_def)
  qed
next
  fix m
  assume w: "wines s' = wines s @ [placeholder_wine E (next_uuid s) m]"
    and sel: "select_wines E m s = []" and memo: "wineMapId s' = wineMapId s"
    and none: "wineMapId s (Num m) = None"
  note app = select_wines_append [OF w, of n]
  show ?thesis
  proof (cases "n = m")
    case True
    with app sel memo none show ?thesis by (simp add: wine_memo_ok_def)
  next
    case False
    with app memo ok show ?thesis by (simp add: wine_memo_ok_def)
  qed
qed

lemma post_wines:
  "wines (createCaseOperationInventoryEntry E opid w f v q s) = wines s
   \<and> wineMapId (createCaseOperationInventoryEntry E opid w f v q s) = wineMapId s"
  by (simp add: createCaseOperationInventoryEntry_def uuidv4_def split: list.splits)

lemma getCaseOperationFromActivityDetail_wines:
  assumes "getCaseOperationFromActivityDetail E g d a s = (r, s')"
  shows "wines s' = wines s \<and> wineMapId s' = wineMapId s"
  using assms
  by (auto simp: getCaseOperationFromActivityDetail_def getCaseOperation_def
        createCaseOperationFromActivityDetail_def uuidv4_def insert_case_operation_def
        split: option.splits script.splits list.splits)

lemma deposit_detail_structure:
  assumes run: "createOrUpdateCaseOperationFromActivityDepositOrWithdrawalActivityDetail E g d a s = (r, s')"
  shows "\<exists>s1 s2. wines s1 = wines s \<and> wineMapId s1 = wineMapId s
           \<and> (s2 = s1 \<or> (\<exists>vr. validateInventoryActivityDetail E d s1 = (vr, s2)))
           \<and> wines s' = wines s2 \<and> wineMapId s' = wineMapId s2"
proof -
  obtain r1 s1 where look: "getCaseOperationFromActivityDetail E g d a s = (r1, s1)"
    by (cases "getCaseOperationFromActivityDetail E g d a s")
  note w1 = getCaseOperationFromActivityDetail_wines [OF look]
  obtain vr s2 where val: "validateInventoryActivityDetail E d s1 = (vr, s2)"
    by (cases "validateInventoryActivityDetail E d s1")
  have "s' = s1 \<or> s' = s2
        \<or> (\<exists>operationId w f v. s' = createCaseOperationInventoryEntry E operationId w f v (Quantity d) s2)"
    using run look val
    by (auto simp: createOrUpdateCaseOperationFromActivityDepositOrWithdrawalActivityDetail_def
          split: sum.splits option.splits)
  then show ?thesis
    using w1 val post_wines by (elim disjE exE) (metis, metis, metis)
qed

lemma transfer_detail_structure:
  assumes run: "createCaseOperationFromActivityTransferActivityDetail E g d a s = (r, s')"
  shows "\<exists>s2. (s2 = s \<or> (\<exists>vr. validateInventoryActivityDetail E d s = (vr, s2)))
           \<and> wines s' = wines s2 \<and> wineMapId s' = wineMapId s2"
proof -
  obtain vr s2 where val: "validateInventoryActivityDetail E d s = (vr, s2)"
    by (cases "validateInventoryActivityDetail E d s")
  have "s' = s \<or> (wines s' = wines s2 \<and> wineMapId s' = wineMapId s2)"
    using run val
    by (auto simp: createCaseOperationFromActivityTransferActivityDetail_def
          createCaseOperationFromActivityTransfer_def uuidv4_def insert_case_operation_def
          createCaseOperationInventoryEntry_def
          split: option.splits if_splits list.splits)
  then show ?thesis using val by blast
qed

text \<open>
  A property of the store that only depends on the wine table and the wine map, and that
  validation preserves, is preserved by the whole reconciliation.
\<close>

lemma deposit_detail_preserves:
  assumes keep: "\<And>s s'. P s \<Longrightarrow> wines s' = wines s \<Longrightarrow> wineMapId s' = wineMapId s \<Longrightarrow> P s'"
    and val: "\<And>d s r s'. P s \<Longrightarrow> validateInventoryActivityDetail E d s = (r, s') \<Longrightarrow> P s'"
    and run: "createOrUpdateCaseOperationFromActivityDepositOrWithdrawalActivityDetail E g d a s = (r, s')"
    and ok: "P s"
  shows "P s'"
proof -
  from deposit_detail_structure [OF run] obtain s1 s2 where
    a: "wines s1 = wines s" "wineMapId s1 = wineMapId s"
    and b: "s2 = s1 \<or> (\<exists>vr. validateInventoryActivityDetail E d s1 = (vr, s2))"
    and c: "wines s' = wines s2" "wineMapId s' = wineMapId s2"
    by blast
  have "P s1" using ok a by (rule keep)
  with b have "P s2" using val by blast
  then show ?thesis using c by (rule keep)
qed

lemma transfer_detail_preserves:
  assumes keep: "\<And>s s'. P s \<Longrightarrow> wines s' = wines s \<Longrightarrow> wineMapId s' = wineMapId s \<Longrightarrow> P s'"
    and val: "\<And>d s r s'. P s \<Longrightarrow> validateInventoryActivityDetail E d s = (r, s') \<Longrightarrow> P s'"
    and run: "createCaseOperationFromActivityTransferActivityDetail E g d a s = (r, s')"
    and ok: "P s"
  shows "P s'"
proof -
  from transfer_detail_structure [OF run] obtain s2 where
    b: "s2 = s \<or> (\<exists>vr. validateInventoryActivityDetail E d s = (vr, s2))"
    and c: "wines s' = wines s2" "wineMapId s' = wineMapId s2"
    by blast
  from b ok have "P s2" using val by blast
  then show ?thesis using c by (rule keep)
qed

lemma deposit_loop_preserves:
  assumes keep: "\<And>s s'. P s \<Longrightarrow> wines s' = wines s \<Longrightarrow> wineMapId s' = wineMapId s \<Longrightarrow> P s'"
    and val: "\<And>d s r s'. P s \<Longrightarrow> validateInventoryActivityDetail E d s = (r, s') \<Longrightarrow> P s'"
    and run: "deposit_or_withdrawal_loop E g a ds s = (r, s')" and ok: "P s"
  shows "P s'"
  using run ok
proof (induction ds arbitrary: s)
  case Nil
  then show ?case by simp
next
  case (Cons d ds)
  obtain r1 s1 where st:
    "createOrUpdateCaseOperationFromActivityDepositOrWithdrawalActivityDetail E g d a s = (r1, s1)"
    by (cases "createOrUpdateCaseOperationFromActivityDepositOrWithdrawalActivityDetail E g d a s")
  have one: "P s1" using keep val st Cons.prems(2) by (rule deposit_detail_preserves)
  show ?case
  proof (cases r1)
    case (Inl e)
    then have "s' = s1" using Cons.prems(1) st by simp
    then show ?thesis using one by simp
  next
    case (Inr u)
    then have "deposit_or_withdrawal_loop E g a ds s1 = (r, s')" using Cons.prems(1) st by simp
    from Cons.IH [OF this one] show ?thesis .
  qed
qed

lemma transfer_loop_preserves:
  assumes keep: "\<And>s s'. P s \<Longrightarrow> wines s' = wines s \<Longrightarrow> wineMapId s' = wineMapId s \<Longrightarrow> P s'"
    and val: "\<And>d s r s'. P s \<Longrightarrow> validateInventoryActivityDetail E d s = (r, s') \<Longrightarrow> P s'"
    and run: "transfer_loop E g a ds s = (r, s')" and ok: "P s"
  shows "P s'"
  using run ok
proof (induction ds arbitrary: s)
  case Nil
  then show ?case by simp
next
  case (Cons d ds)
  obtain r1 s1 where st:
    "createCaseOperationFromActivityTransferActivityDetail E g d a s = (r1, s1)"
    by (cases "createCaseOperationFromActivityTransferActivityDetail E g d a s")
  have one: "P s1" using keep val st Cons.prems(2) by (rule transfer_detail_preserves)
  show ?case
  proof (cases r1)
    case (Inl e)
    then have "s' = s1" using Cons.prems(1) st by simp
    then show ?thesis using one by simp
  next
    case (Inr u)
    then have "transfer_loop E g a ds s1 = (r, s')" using Cons.prems(1) st by simp
    from Cons.IH [OF this one] show ?thesis .
  qed
qed

lemma dispatch_preserves:
  assumes keep: "\<And>s s'. P s \<Longrightarrow> wines s' = wines s \<Longrightarrow> wineMapId s' = wineMapId s \<Longrightarrow> P s'"
    and val: "\<And>d s r s'. P s \<Longrightarrow> validateInventoryActivityDetail E d s = (r, s') \<Longrightarrow> P s'"
    and run: "dispatch_transaction_type E g a s = (r, s')" and ok: "P s"
  shows "P s'"
proof -
  consider (dw) "deposit_or_withdrawal_loop E g a (getInventoryActivityDetails E a) s = (r, s')"
    | (t) "transfer_loop E g a (getInventoryActivityDetails E a) s = (r, s')"
    | (other) "s' = s"
    using run
    by (auto simp: dispatch_transaction_type_def createCaseOperationsFromActivityDepositOrWithdrawal_def
          createCaseOperationsFromActivityTransfer_def split: if_splits)
  then show ?thesis
  proof cases
    case dw
    with keep val show ?thesis using ok by (rule deposit_loop_preserves)
  next
    case t
    with keep val show ?thesis using ok by (rule transfer_loop_preserves)
  next
    case other
    then show ?thesis using ok by simp
  qed
qed

lemma createOperationGroup_preserves:
  assumes keep: "\<And>s s'. P s \<Longrightarrow> wines s' = wines s \<Longrightarrow> wineMapId s' = wineMapId s \<Longrightarrow> P s'"
    and val: "\<And>d s r s'. P s \<Longrightarrow> validateInventoryActivityDetail E d s = (r, s') \<Longrightarrow> P s'"
    and run: "createOperationGroup E c a s = (r, s')" and ok: "P s"
  shows "P s'"
proof -
  let ?s1 = "insert_operation_group E (next_uuid s) c a (s\<lparr>next_uuid := Suc (next_uuid s)\<rparr>)"
  have ok1: "P ?s1"
    using ok by (rule keep) (simp_all add: insert_operation_group_def)
  show ?thesis
  proof (cases "script_of E")
    case Migrator
    then have "s' = ?s1" using run by (simp add: createOperationGroup_def uuidv4_def)
    then show ?thesis using ok1 by simp
  next
    case Seeder
    obtain r2 s2 where d: "dispatch_transaction_type E (next_uuid s) a ?s1 = (r2, s2)"
      by (cases "dispatch_transaction_type E (next_uuid s) a ?s1")
    then have "s' = s2" using run Seeder
      by (auto simp: createOperationGroup_def uuidv4_def split: sum.splits)
    moreover have "P s2" using keep val d ok1 by (rule dispatch_preserves)
    ultimately show ?thesis by simp
  qed
qed

lemma activities_loop_preserves:
  assumes keep: "\<And>s s'. P s \<Longrightarrow> wines s' = wines s \<Longrightarrow> wineMapId s' = wineMapId s \<Longrightarrow> P s'"
    and val: "\<And>d s r s'. P s \<Longrightarrow> validateInventoryActivityDetail E d s = (r, s') \<Longrightarrow> P s'"
    and run: "activities_loop E c as s = (r, s')" and ok: "P s"
  shows "P s'"
  using run ok
proof (induction as arbitrary: s)
  case Nil
  then show ?case by simp
next
  case (Cons a as)
  obtain r1 s1 where st: "createOperationGroup E c a s = (r1, s1)"
    by (cases "createOperationGroup E c a s")
  have one: "P s1" using keep val st Cons.prems(2) by (rule createOperationGroup_preserves)
  show ?case
  proof (cases r1)
    case (Inl e)
    then have "s' = s1" using Cons.prems(1) st by simp
    then show ?thesis using one by simp
  next
    case (Inr u)
    then have "activities_loop E c as s1 = (r, s')" using Cons.prems(1) st by simp
    from Cons.IH [OF this one] show ?thesis .
  qed
qed

lemma customers_loop_preserves:
  assumes keep: "\<And>s s'. P s \<Longrightarrow> wines s' = wines s \<Longrightarrow> wineMapId s' = wineMapId s \<Longrightarrow> P s'"
    and val: "\<And>d s r s'. P s \<Longrightarrow> validateInventoryActivityDetail E d s = (r, s') \<Longrightarrow> P s'"
    and run: "customers_loop E cm s = (r, s')" and ok: "P s"
  shows "P s'"
  using run ok
proof (induction cm arbitrary: s)
  case Nil
  then show ?case by simp
next
  case (Cons kc cm)
  obtain k c where kc: "kc = (k, c)" by (cases kc)
  show ?case
  proof (cases "getCustomerActivities E k")
    case (Inl e)
    then have "s' = s" using Cons.prems(1) kc by simp
    then show ?thesis using Cons.prems(2) by simp
  next
    case (Inr as)
    obtain r1 s1 where st: "activities_loop E c as s = (r1, s1)"
      by (cases "activities_loop E c as s")
    have one: "P s1" using keep val st Cons.prems(2) by (rule activities_loop_preserves)
    show ?thesis
    proof (cases r1)
      case (Inl e)
      then have "s' = s1" using Cons.prems(1) kc Inr st by simp
      then show ?thesis using one by simp
    next
      case r1: (Inr u)
      then have "customers_loop E cm s1 = (r, s')" using Cons.prems(1) kc Inr st by simp
      from Cons.IH [OF this one] show ?thesis .
    qed
  qed
qed

lemma seedOperationGroups_preserves:
  assumes keep: "\<And>s s'. P s \<Longrightarrow> wines s' = wines s \<Longrightarrow> wineMapId s' = wineMapId s \<Longrightarrow> P s'"
    and val: "\<And>d s r s'. P s \<Longrightarrow> validateInventoryActivityDetail E d s = (r, s') \<Longrightarrow> P s'"
    and run: "seedOperationGroups E s = (r, s')" and ok: "P s"
  shows "P s'"
proof -
  let ?s1 = "s\<lparr>customerIdMap := getCustomerIdMap E s, caseIdMap := getCaseIdMap E s\<rparr>"
  have ok1: "P ?s1" using ok by (rule keep) simp_all
  have "customers_loop E (getCustomerIdMap E s) ?s1 = (r, s')"
    using run by (simp add: seedOperationGroups_def Let_def)
  with keep val show ?thesis using ok1 by (rule customers_loop_preserves)
qed

text \<open>The wine of a legacy id stays the same wine.\<close>

lemma validate_same_wine:
  assumes run: "validateInventoryActivityDetail E d s = (r, s')"
    and ok: "select_wines E n s = [p] \<and> wine_memo_ok E n s"
  shows "select_wines E n s' = [p] \<and> wine_memo_ok E n s'"
proof -
  from ok have sel: "select_wines E n s = [p]" and okm: "wine_memo_ok E n s" by simp_all
  note ok' = validate_wine_ok [OF run okm]
  from validate_wine_cases [OF run] have "select_wines E n s' = select_wines E n s"
  proof (elim disjE exE conjE)
    fix m
    assume w: "wines s' = wines s @ [placeholder_wine E (next_uuid s) m]"
      and none: "select_wines E m s = []"
    from none sel have "n \<noteq> m" by auto
    with select_wines_append [OF w, of n] show ?thesis by simp
  qed (simp_all add: select_wines_def)
  with sel ok' show ?thesis by simp
qed

lemma same_wine_keep:
  assumes "select_wines E n s = [p] \<and> wine_memo_ok E n s"
    and "wines s' = wines s" and "wineMapId s' = wineMapId s"
  shows "select_wines E n s' = [p] \<and> wine_memo_ok E n s'"
proof -
  have "select_wines E n s' = select_wines E n s" using assms(2) by (rule select_wines_cong)
  moreover have "wine_memo_ok E n s'" using assms by (blast intro: wine_memo_ok_keep)
  ultimately show ?thesis using assms(1) by simp
qed

lemma validate_first_line:
  assumes valid: "line_valid E s d" and k: "legacy_wine_of E s d = Num n"
    and sel: "select_wines E n s = []" and ok: "wine_memo_ok E n s"
    and run: "validateInventoryActivityDetail E d s = (r, s')"
  shows "(\<exists>ids. r = Some ids \<and> newWineId ids = Some (next_uuid s))
         \<and> wines s' = wines s @ [placeholder_wine E (next_uuid s) n]
         \<and> select_wines E n s' = [placeholder_wine E (next_uuid s) n]
         \<and> wine_memo_ok E n s'"
proof -
  from ok sel have memo: "wineMapId s (Num n) = None" by (simp add: wine_memo_ok_def)
  from validate_spec [OF run] valid obtain w f v where
    r: "r = Some \<lparr>newWineId = Some w, newBottleFormatId = Some f, newBottleVintageId = Some v\<rparr>"
    by blast
  from validate_wine_cases [OF run] k memo sel r
  have w: "wines s' = wines s @ [placeholder_wine E (next_uuid s) n]" and "w = next_uuid s"
    by auto
  moreover from select_wines_append [OF w, of n] sel
  have "select_wines E n s' = [placeholder_wine E (next_uuid s) n]" by simp
  moreover note validate_wine_ok [OF run ok]
  ultimately show ?thesis using r by simp
qed

lemma validate_later_line:
  assumes sel: "select_wines E n s = [p]" and ok: "wine_memo_ok E n s"
    and k: "legacy_wine_of E s d = Num n"
    and run: "validateInventoryActivityDetail E d s = (r, s')"
  shows "wines s' = wines s
         \<and> (line_valid E s d \<longrightarrow> (\<exists>ids. r = Some ids \<and> newWineId ids = Some (wine_id p)))"
proof -
  from ok sel have memo: "wineMapId s (Num n) = None \<or> wineMapId s (Num n) = Some (wine_id p)"
    by (auto simp: wine_memo_ok_def)
  from validate_wine_cases [OF run] k sel memo
  have w: "wines s' = wines s"
    and res: "\<forall>ids. r = Some ids \<and> newWineId ids \<noteq> None \<longrightarrow> newWineId ids = Some (wine_id p)"
    by auto
  have "\<exists>ids. r = Some ids \<and> newWineId ids = Some (wine_id p)" if "line_valid E s d"
  proof -
    from validate_spec [OF run] that obtain w f v where
      r: "r = Some \<lparr>newWineId = Some w, newBottleFormatId = Some f, newBottleVintageId = Some v\<rparr>"
      by blast
    with res show ?thesis by auto
  qed
  with w show ?thesis by blast
qed

text \<open>
  Claim C9. Take a legacy wine id that the tenant has no wine for, in a store where the
  id is unambiguous. Validating a fully resolved line that references it inserts exactly
  one wine row, the placeholder, with a new identifier, the legacy id and the description
  ``Legacy Wine - Veritas - '' followed by the legacy id, and returns the identifier of
  the placeholder. From then on the placeholder is the only wine of the tenant with that
  legacy id: every further validation and every loop of the run over line items,
  activities and customers keeps it so, and every later line that references the legacy
  id leaves the wine table as it is and, when fully resolved, gets the identifier of the
  same placeholder. A whole run never leaves more than one wine for a legacy id that
  was unambiguous before.
\<close>

theorem placeholder_wine_created_once:
  "(line_valid E s d \<and> legacy_wine_of E s d = Num n \<and> select_wines E n s = []
      \<and> wine_memo_ok E n s \<and> validateInventoryActivityDetail E d s = (r, s') \<longrightarrow>
      (\<exists>ids. r = Some ids \<and> newWineId ids = Some (next_uuid s))
      \<and> wines s' = wines s @ [placeholder_wine E (next_uuid s) n]
      \<and> select_wines E n s' = [placeholder_wine E (next_uuid s) n]
      \<and> wine_memo_ok E n s')
   \<and> (select_wines E n s1 = [p] \<and> wine_memo_ok E n s1 \<and> legacy_wine_of E s1 d2 = Num n
        \<and> validateInventoryActivityDetail E d2 s1 = (r2, s2) \<longrightarrow>
      wines s2 = wines s1
      \<and> (line_valid E s1 d2 \<longrightarrow> (\<exists>ids. r2 = Some ids \<and> newWineId ids = Some (wine_id p))))
   \<and> (select_wines E n s3 = [p] \<and> wine_memo_ok E n s3
        \<and> (validateInventoryActivityDetail E d3 s3 = (vr, s4)
            \<or> deposit_or_withdrawal_loop E g a ds s3 = (r4, s4)
            \<or> transfer_loop E g a ds s3 = (r4, s4)
            \<or> activities_loop E c as s3 = (r4, s4)
            \<or> customers_loop E cm s3 = (r4, s4)) \<longrightarrow>
      select_wines E n s4 = [p] \<and> wine_memo_ok E n s4)
   \<and> (wine_memo_ok E n s5 \<and> seedOperationGroups E s5 = (r6, s6) \<longrightarrow>
      wine_memo_ok E n s6 \<and> length (select_wines E n s6) \<le> 1)"
proof (intro conjI impI)
  assume h: "line_valid E s d \<and> legacy_wine_of E s d = Num n \<and> select_wines E n s = []
      \<and> wine_memo_ok E n s \<and> validateInventoryActivityDetail E d s = (r, s')"
  then have first: "(\<exists>ids. r = Some ids \<and> newWineId ids = Some (next_uuid s))
         \<and> wines s' = wines s @ [placeholder_wine E (next_uuid s) n]
         \<and> select_wines E n s' = [placeholder_wine E (next_uuid s) n]
         \<and> wine_memo_ok E n s'"
    using validate_first_line by blast
  from first show "\<exists>ids. r = Some ids \<and> newWineId ids = Some (next_uuid s)" by simp
  from first show "wines s' = wines s @ [placeholder_wine E (next_uuid s) n]" by simp
  from first show "select_wines E n s' = [placeholder_wine E (next_uuid s) n]" by simp
  from first show "wine_memo_ok E n s'" by simp
next
  assume h: "select_wines E n s1 = [p] \<and> wine_memo_ok E n s1 \<and> legacy_wine_of E s1 d2 = Num n
        \<and> validateInventoryActivityDetail E d2 s1 = (r2, s2)"
  then have later: "wines s2 = wines s1
         \<and> (line_valid E s1 d2 \<longrightarrow> (\<exists>ids. r2 = Some ids \<and> newWineId ids = Some (wine_id p)))"
    using validate_later_line by blast
  from later show "wines s2 = wines s1" by simp
  assume "line_valid E s1 d2"
  with later show "\<exists>ids. r2 = Some ids \<and> newWineId ids = Some (wine_id p)" by simp
next
  let ?P = "\<lambda>s. select_wines E n s = [p] \<and> wine_memo_ok E n s"
  assume h: "select_wines E n s3 = [p] \<and> wine_memo_ok E n s3
        \<and> (validateInventoryActivityDetail E d3 s3 = (vr, s4)
            \<or> deposit_or_withdrawal_loop E g a ds s3 = (r4, s4)
            \<or> transfer_loop E g a ds s3 = (r4, s4)
            \<or> activities_loop E c as s3 = (r4, s4)
            \<or> customers_loop E cm s3 = (r4, s4))"
  then have ok: "?P s3" by simp
  have keep: "\<And>s s'. ?P s \<Longrightarrow> wines s' = wines s \<Longrightarrow> wineMapId s' = wineMapId s \<Longrightarrow> ?P s'"
    by (rule same_wine_keep)
  have val: "\<And>d s r s'. ?P s \<Longrightarrow> validateInventoryActivityDetail E d s = (r, s') \<Longrightarrow> ?P s'"
    by (rule validate_same_wine)
  from h consider (v) "validateInventoryActivityDetail E d3 s3 = (vr, s4)"
    | (dw) "deposit_or_withdrawal_loop E g a ds s3 = (r4, s4)"
    | (t) "transfer_loop E g a ds s3 = (r4, s4)"
    | (al) "activities_loop E c as s3 = (r4, s4)"
    | (cl) "customers_loop E cm s3 = (r4, s4)"
    by blast
  then have "?P s4"
  proof cases
    case v
    with ok show ?thesis by (rule val)
  next
    case dw
    with keep val show ?thesis using ok by (rule deposit_loop_preserves [where P = ?P])
  next
    case t
    with keep val show ?thesis using ok by (rule transfer_loop_preserves [where P = ?P])
  next
    case al
    with keep val show ?thesis using ok by (rule activities_loop_preserves [where P = ?P])
  next
    case cl
    with keep val show ?thesis using ok by (rule customers_loop_preserves [where P = ?P])
  qed
  then show "select_wines E n s4 = [p]" and "wine_memo_ok E n s4" by simp_all
next
  assume h: "wine_memo_ok E n s5 \<and> seedOperationGroups E s5 = (r6, s6)"
  then have ok: "wine_memo_ok E n s5" and run: "seedOperationGroups E s5 = (r6, s6)" by simp_all
  have keep: "\<And>s s'. wine_memo_ok E n s \<Longrightarrow> wines s' = wines s \<Longrightarrow> wineMapId s' = wineMapId s
                \<Longrightarrow> wine_memo_ok E n s'"
    by (rule wine_memo_ok_keep)
  have val: "\<And>d s r s'. wine_memo_ok E n s \<Longrightarrow> validateInventoryActivityDetail E d s = (r, s')
                \<Longrightarrow> wine_memo_ok E n s'"
    using validate_wine_ok by blast
  from keep val run ok show "wine_memo_ok E n s6"
    by (rule seedOperationGroups_preserves [where P = "wine_memo_ok E n"])
  then show "length (select_wines E n s6) \<le> 1" by (simp add: wine_memo_ok_def)
qed

theorem placeholder_wine_created_once_witness:
  "line_valid (env_of Seeder example_data) example_store
     (line 4 502 ''Bottle'' 30 (Some 5) (Some 8) (Some 1) 4)
   \<and> legacy_wine_of (env_of Seeder example_data) example_store
       (line 4 502 ''Bottle'' 30 (Some 5) (Some 8) (Some 1) 4) = Num 8
   \<and> select_wines (env_of Seeder example_data) 8 example_store = []
   \<and> wine_memo_ok (env_of Seeder example_data) 8 example_store
   \<and> wines (snd (validateInventoryActivityDetail (env_of Seeder example_data)
                (line 4 502 ''Bottle'' 30 (Some 5) (Some 8) (Some 1) 4) example_store))
       = wines example_store @ [placeholder_wine (env_of Seeder example_data) 1000 8]
   \<and> wines (snd (validateInventoryActivityDetail (env_of Seeder example_data)
                (line 5 502 ''Bottle'' 30 (Some 5) (Some 8) (Some 1) 6)
                (snd (validateInventoryActivityDetail (env_of Seeder example_data)
                       (line 4 502 ''Bottle'' 30 (Some 5) (Some 8) (Some 1) 4) example_store))))
       = wines (snd (validateInventoryActivityDetail (env_of Seeder example_data)
                (line 4 502 ''Bottle'' 30 (Some 5) (Some 8) (Some 1) 4) example_store))
   \<and> select_wines (env_of Seeder example_data) 8
        (snd (transfer_loop (env_of Seeder example_data) 77 (act 502 ''T'' 1)
               [line 5 502 ''Bottle'' 30 (Some 5) (Some 8) (Some 1) 6]
               (snd (validateInventoryActivityDetail (env_of Seeder example_data)
                      (line 4 502 ''Bottle'' 30 (Some 5) (Some 8) (Some 1) 4) example_store))))
       = [placeholder_wine (env_of Seeder example_data) 1000 8]
   \<and> length (select_wines (env_of Seeder example_data) 8
        (snd (seedOperationGroups (env_of Seeder example_data) example_store))) \<le> 1"
proof -
  let ?E = "env_of Seeder example_data" and ?a = "act 502 ''T'' 1"
  let ?d = "line 4 502 ''Bottle'' 30 (Some 5) (Some 8) (Some 1) 4"
  let ?d2 = "line 5 502 ''Bottle'' 30 (Some 5) (Some 8) (Some 1) 6"
  let ?V1 = "validateInventoryActivityDetail ?E ?d example_store"
  let ?V2 = "validateInventoryActivityDetail ?E ?d2 (snd ?V1)"
  let ?T = "transfer_loop ?E 77 ?a [?d2] (snd ?V1)"
  let ?R = "seedOperationGroups ?E example_store"
  let ?p = "placeholder_wine ?E 1000 8"
  have valid: "line_valid ?E example_store ?d" by code_simp
  have k: "legacy_wine_of ?E example_store ?d = Num 8" by code_simp
  have sel: "select_wines ?E 8 example_store = []" by code_simp
  have ok: "wine_memo_ok ?E 8 example_store" by code_simp
  have n: "next_uuid example_store = 1000" by (simp add: example_store_def)
  have k2: "legacy_wine_of ?E (snd ?V1) ?d2 = Num 8" by code_simp
  have v1: "?V1 = (fst ?V1, snd ?V1)" and v2: "?V2 = (fst ?V2, snd ?V2)"
    and tl: "?T = (fst ?T, snd ?T)" and sr: "?R = (fst ?R, snd ?R)"
    by simp_all
  note c1 = placeholder_wine_created_once [where E = ?E and s = example_store and d = ?d
        and n = 8 and r = "fst ?V1" and s' = "snd ?V1", THEN conjunct1]
  have first: "wines (snd ?V1) = wines example_store @ [?p]
               \<and> select_wines ?E 8 (snd ?V1) = [?p] \<and> wine_memo_ok ?E 8 (snd ?V1)"
    using c1 valid k sel ok v1 unfolding n by blast
  note c2 = placeholder_wine_created_once [where E = ?E and n = 8 and ?s1.0 = "snd ?V1"
        and p = ?p and ?d2.0 = ?d2 and ?r2.0 = "fst ?V2" and ?s2.0 = "snd ?V2",
        THEN conjunct2, THEN conjunct1]
  have later: "wines (snd ?V2) = wines (snd ?V1)"
    using c2 first k2 v2 by blast
  note c3 = placeholder_wine_created_once [where E = ?E and n = 8 and ?s3.0 = "snd ?V1"
        and p = ?p and g = 77 and a = ?a and ds = "[?d2]" and ?r4.0 = "fst ?T"
        and ?s4.0 = "snd ?T" and ?d3.0 = ?d2 and vr = None and c = 0 and as = "[]"
        and cm = "[]", THEN conjunct2, THEN conjunct2, THEN conjunct1]
  have kept: "select_wines ?E 8 (snd ?T) = [?p]"
    using c3 first tl by blast
  note c4 = placeholder_wine_created_once [where E = ?E and n = 8 and ?s5.0 = example_store
        and ?r6.0 = "fst ?R" and ?s6.0 = "snd ?R",
        THEN conjunct2, THEN conjunct2, THEN conjunct2]
  have run: "length (select_wines ?E 8 (snd ?R)) \<le> 1"
    using c4 ok sr by blast
  show ?thesis using valid k sel ok first later kept run by blast
qed

subsection \<open>Selection of activities and operation groups [C5]\<close>

lemma getCustomerActivities_selected:
  assumes "getCustomerActivities E k = Inr as"
  shows "as = selected_activities E k"
proof (cases k)
  case None
  then show ?thesis using assms
    by (auto simp: getCustomerActivities_def selected_activities_def split: if_splits)
next
  case (Some n)
  then have "as = filter (\<lambda>a. truthy (of_json (AccountID a)) \<and> AccountID a = Some n \<and> Status a = 1)
                    (activities (legacyData E))"
    using assms by (simp add: getCustomerActivities_def)
  also have "\<dots> = selected_activities E k"
    unfolding selected_activities_def Some by (rule filter_cong) auto
  finally show ?thesis .
qed

lemma transfer_op_spec:
  assumes "createCaseOperationFromActivityTransfer E g a c ty s = (i, s1)"
  shows "cases_operations s1 = cases_operations s @ [new_case_operation E i c (Some ty) a g]
         \<and> operations_groups s1 = operations_groups s"
  using assms
  by (auto simp: createCaseOperationFromActivityTransfer_def uuidv4_def insert_case_operation_def)

lemma post_ops:
  "cases_operations (createCaseOperationInventoryEntry E opid w f v q s) = cases_operations s
   \<and> operations_groups (createCaseOperationInventoryEntry E opid w f v q s) = operations_groups s"
  by (simp add: createCaseOperationInventoryEntry_def uuidv4_def split: list.splits)

lemma transfer_detail_new_ops:
  assumes run: "createCaseOperationFromActivityTransferActivityDetail E g d a s = (r, s')"
  shows "operations_groups s' = operations_groups s
         \<and> (\<exists>new. cases_operations s' = cases_operations s @ new
               \<and> (\<forall>co \<in> set new. co_logs co = new_logs (script_of E) a \<and> co_group_id co = g))"
proof -
  obtain vr s2 where val: "validateInventoryActivityDetail E d s = (vr, s2)"
    by (cases "validateInventoryActivityDetail E d s")
  from validate_spec [OF val] have lo: "operations_groups s2 = operations_groups s"
    "cases_operations s2 = cases_operations s"
    by (simp_all add: lookups_only_def)
  have "s' = s \<or> s' = s2
        \<or> (\<exists>src dst w f v i s3 j s4.
              createCaseOperationFromActivityTransfer E g a src ''withdrawal'' s2 = (i, s3)
              \<and> createCaseOperationFromActivityTransfer E g a dst ''deposit''
                    (createCaseOperationInventoryEntry E i w f v (Quantity d) s3) = (j, s4)
              \<and> s' = createCaseOperationInventoryEntry E j w f v (Quantity d) s4)"
    using run val
    apply (simp add: createCaseOperationFromActivityTransferActivityDetail_def
          split: option.splits if_splits prod.splits)
    apply blast
    done
  then show ?thesis
  proof (elim disjE exE conjE)
    assume "s' = s"
    then show ?thesis by simp
  next
    assume "s' = s2"
    then show ?thesis using lo by simp
  next
    fix src dst w f v i s3 j s4
    assume c1: "createCaseOperationFromActivityTransfer E g a src ''withdrawal'' s2 = (i, s3)"
      and c2: "createCaseOperationFromActivityTransfer E g a dst ''deposit''
                    (createCaseOperationInventoryEntry E i w f v (Quantity d) s3) = (j, s4)"
      and s': "s' = createCaseOperationInventoryEntry E j w f v (Quantity d) s4"
    let ?new = "[new_case_operation E i src (Some ''withdrawal'') a g,
                 new_case_operation E j dst (Some ''deposit'') a g]"
    note a = transfer_op_spec [OF c1] and b = transfer_op_spec [OF c2]
    have "cases_operations s' = cases_operations s @ ?new"
      using a b s' lo by (simp add: post_ops)
    moreover have "\<forall>co \<in> set ?new. co_logs co = new_logs (script_of E) a \<and> co_group_id co = g"
      by (simp add: new_case_operation_def)
    moreover have "operations_groups s' = operations_groups s"
      using a b s' lo by (simp add: post_ops)
    ultimately show ?thesis by blast
  qed
qed

lemma deposit_detail_new_ops:
  assumes run: "createOrUpdateCaseOperationFromActivityDepositOrWithdrawalActivityDetail E g d a s = (r, s')"
  shows "operations_groups s' = operations_groups s
         \<and> (\<exists>new. cases_operations s' = cases_operations s @ new
               \<and> (\<forall>co \<in> set new. co_logs co = new_logs (script_of E) a \<and> co_group_id co = g))"
proof -
  note ops = deposit_detail_ops [OF run]
  then have grp: "operations_groups s' = operations_groups s" by (simp add: extends_def)
  let ?row = "\<lambda>cid. new_case_operation E (next_uuid s) cid
                               (parseActivityTransactionType (script_of E) a) a g"
  have "cases_operations s' = cases_operations s
        \<or> (\<exists>cid. cases_operations s' = cases_operations s @ [?row cid])"
    using ops by (auto split: option.splits list.splits)
  then show ?thesis
  proof
    assume "cases_operations s' = cases_operations s"
    then show ?thesis using grp by simp
  next
    assume "\<exists>cid. cases_operations s' = cases_operations s @ [?row cid]"
    then obtain cid where "cases_operations s' = cases_operations s @ [?row cid]" by blast
    moreover have "\<forall>co \<in> set [?row cid]. co_logs co = new_logs (script_of E) a \<and> co_group_id co = g"
      by (simp add: new_case_operation_def)
    ultimately show ?thesis using grp by blast
  qed
qed

lemma new_ops_trans:
  assumes "\<exists>new. (ops1::case_operation list) = ops @ new \<and> (\<forall>co \<in> set new. Q co)"
    and "\<exists>new. ops2 = ops1 @ new \<and> (\<forall>co \<in> set new. Q co)"
  shows "\<exists>new. ops2 = ops @ new \<and> (\<forall>co \<in> set new. Q co)"
proof -
  from assms obtain n1 n2 where "ops1 = ops @ n1" "\<forall>co \<in> set n1. Q co"
    "ops2 = ops1 @ n2" "\<forall>co \<in> set n2. Q co" by blast
  then have "ops2 = ops @ (n1 @ n2) \<and> (\<forall>co \<in> set (n1 @ n2). Q co)" by auto
  then show ?thesis by blast
qed

lemma deposit_loop_new_ops:
  assumes "deposit_or_withdrawal_loop E g a ds s = (r, s')"
  shows "operations_groups s' = operations_groups s
         \<and> (\<exists>new. cases_operations s' = cases_operations s @ new
               \<and> (\<forall>co \<in> set new. co_logs co = new_logs (script_of E) a \<and> co_group_id co = g))"
  using assms
proof (induction ds arbitrary: s)
  case Nil
  then show ?case by simp
next
  case (Cons d ds)
  obtain r1 s1 where st:
    "createOrUpdateCaseOperationFromActivityDepositOrWithdrawalActivityDetail E g d a s = (r1, s1)"
    by (cases "createOrUpdateCaseOperationFromActivityDepositOrWithdrawalActivityDetail E g d a s")
  note one = deposit_detail_new_ops [OF st]
  show ?case
  proof (cases r1)
    case (Inl e)
    then have "s' = s1" using Cons.prems st by simp
    then show ?thesis using one by simp
  next
    case (Inr u)
    then have "deposit_or_withdrawal_loop E g a ds s1 = (r, s')" using Cons.prems st by simp
    note ih = Cons.IH [OF this]
    from one ih have "operations_groups s' = operations_groups s" by simp
    moreover from one ih new_ops_trans
    have "\<exists>new. cases_operations s' = cases_operations s @ new
               \<and> (\<forall>co \<in> set new. co_logs co = new_logs (script_of E) a \<and> co_group_id co = g)"
      by blast
    ultimately show ?thesis by simp
  qed
qed

lemma transfer_loop_new_ops:
  assumes "transfer_loop E g a ds s = (r, s')"
  shows "operations_groups s' = operations_groups s
         \<and> (\<exists>new. cases_operations s' = cases_operations s @ new
               \<and> (\<forall>co \<in> set new. co_logs co = new_logs (script_of E) a \<and> co_group_id co = g))"
  using assms
proof (induction ds arbitrary: s)
  case Nil
  then show ?case by simp
next
  case (Cons d ds)
  obtain r1 s1 where st:
    "createCaseOperationFromActivityTransferActivityDetail E g d a s = (r1, s1)"
    by (cases "createCaseOperationFromActivityTransferActivityDetail E g d a s")
  note one = transfer_detail_new_ops [OF st]
  show ?case
  proof (cases r1)
    case (Inl e)
    then have "s' = s1" using Cons.prems st by simp
    then show ?thesis using one by simp
  next
    case (Inr u)
    then have "transfer_loop E g a ds s1 = (r, s')" using Cons.prems st by simp
    note ih = Cons.IH [OF this]
    from one ih have "operations_groups s' = operations_groups s" by simp
    moreover from one ih new_ops_trans
    have "\<exists>new. cases_operations s' = cases_operations s @ new
               \<and> (\<forall>co \<in> set new. co_logs co = new_logs (script_of E) a \<and> co_group_id co = g)"
      by blast
    ultimately show ?thesis by simp
  qed
qed

lemma dispatch_new_ops:
  assumes "dispatch_transaction_type E g a s = (r, s')"
  shows "operations_groups s' = operations_groups s
         \<and> (\<exists>new. cases_operations s' = cases_operations s @ new
               \<and> (\<forall>co \<in> set new. co_logs co = new_logs (script_of E) a \<and> co_group_id co = g))"
proof -
  consider (dw) "deposit_or_withdrawal_loop E g a (getInventoryActivityDetails E a) s = (r, s')"
    | (t) "transfer_loop E g a (getInventoryActivityDetails E a) s = (r, s')"
    | (other) "s' = s"
    using assms
    by (auto simp: dispatch_transaction_type_def createCaseOperationsFromActivityDepositOrWithdrawal_def
          createCaseOperationsFromActivityTransfer_def split: if_splits)
  then show ?thesis
  proof cases
    case dw
    then show ?thesis by (rule deposit_loop_new_ops)
  next
    case t
    then show ?thesis by (rule transfer_loop_new_ops)
  next
    case other
    then show ?thesis by simp
  qed
qed

lemma createOperationGroup_groups:
  assumes run: "createOperationGroup E c a s = (r, s')"
  shows "operations_groups s' = operations_groups s @
           [\<lparr>og_id = next_uuid s, og_tenant_id = defaultTenantId E, og_customer_id = c,
             og_status = parseActivityStatus (script_of E) (Status a)\<rparr>]"
proof -
  let ?s1 = "insert_operation_group E (next_uuid s) c a (s\<lparr>next_uuid := Suc (next_uuid s)\<rparr>)"
  have g1: "operations_groups ?s1 = operations_groups s @
           [\<lparr>og_id = next_uuid s, og_tenant_id = defaultTenantId E, og_customer_id = c,
             og_status = parseActivityStatus (script_of E) (Status a)\<rparr>]"
    by (simp add: insert_operation_group_def)
  show ?thesis
  proof (cases "script_of E")
    case Migrator
    then have "s' = ?s1" using run by (simp add: createOperationGroup_def uuidv4_def)
    then show ?thesis using g1 by simp
  next
    case Seeder
    obtain r2 s2 where d: "dispatch_transaction_type E (next_uuid s) a ?s1 = (r2, s2)"
      by (cases "dispatch_transaction_type E (next_uuid s) a ?s1")
    then have "s' = s2" using run Seeder
      by (auto simp: createOperationGroup_def uuidv4_def split: sum.splits)
    with dispatch_new_ops [OF d] g1 show ?thesis by simp
  qed
qed

lemma activities_loop_groups:
  assumes "activities_loop E c as s = (Inr (), s')"
  shows "\<exists>new. operations_groups s' = operations_groups s @ new
           \<and> map (\<lambda>g. (og_customer_id g, og_status g)) new
               = map (\<lambda>a. (c, parseActivityStatus (script_of E) (Status a))) as"
  using assms
proof (induction as arbitrary: s)
  case Nil
  then show ?case by simp
next
  case (Cons a as)
  obtain r1 s1 where st: "createOperationGroup E c a s = (r1, s1)"
    by (cases "createOperationGroup E c a s")
  note one = createOperationGroup_groups [OF st]
  from Cons.prems st obtain u where "r1 = Inr u" by (cases r1) auto
  then have "activities_loop E c as s1 = (Inr (), s')" using Cons.prems st by simp
  from Cons.IH [OF this] obtain new where
    n: "operations_groups s' = operations_groups s1 @ new"
    "map (\<lambda>g. (og_customer_id g, og_status g)) new
       = map (\<lambda>a. (c, parseActivityStatus (script_of E) (Status a))) as"
    by blast
  let ?g = "\<lparr>og_id = next_uuid s, og_tenant_id = defaultTenantId E, og_customer_id = c,
             og_status = parseActivityStatus (script_of E) (Status a)\<rparr>"
  have "operations_groups s' = operations_groups s @ (?g # new)
        \<and> map (\<lambda>g. (og_customer_id g, og_status g)) (?g # new)
               = map (\<lambda>a. (c, parseActivityStatus (script_of E) (Status a))) (a # as)"
    using n one by simp
  then show ?case by blast
qed

lemma selected_processed:
  "map (\<lambda>a. (c, parseActivityStatus sc (Status a))) (selected_activities E k)
     = map (\<lambda>a. (c, Some ''processed'')) (selected_activities E k)"
  by (simp add: selected_activities_def parseActivityStatus_def)

lemma customers_loop_groups:
  assumes "customers_loop E cm s = (Inr (), s')"
  shows "\<exists>new. operations_groups s' = operations_groups s @ new
           \<and> map (\<lambda>g. (og_customer_id g, og_status g)) new
               = concat (map (\<lambda>(k, c). map (\<lambda>a. (c, Some ''processed''))
                                          (selected_activities E k)) cm)"
  using assms
proof (induction cm arbitrary: s)
  case Nil
  then show ?case by simp
next
  case (Cons kc cm)
  obtain k c where kc: "kc = (k, c)" by (cases kc)
  from Cons.prems kc obtain as where ga: "getCustomerActivities E k = Inr as"
    by (cases "getCustomerActivities E k") auto
  note sel = getCustomerActivities_selected [OF ga]
  obtain r1 s1 where st: "activities_loop E c as s = (r1, s1)"
    by (cases "activities_loop E c as s")
  from Cons.prems kc ga st obtain u where "r1 = Inr u" by (cases r1) auto
  then have st': "activities_loop E c as s = (Inr (), s1)"
    and rest: "customers_loop E cm s1 = (Inr (), s')"
    using Cons.prems kc ga st by simp_all
  from activities_loop_groups [OF st'] obtain new1 where
    n1: "operations_groups s1 = operations_groups s @ new1"
    "map (\<lambda>g. (og_customer_id g, og_status g)) new1
       = map (\<lambda>a. (c, Some ''processed'')) (selected_activities E k)"
    unfolding sel selected_processed by blast
  from Cons.IH [OF rest] obtain new2 where
    n2: "operations_groups s' = operations_groups s1 @ new2"
    "map (\<lambda>g. (og_customer_id g, og_status g)) new2
               = concat (map (\<lambda>(k, c). map (\<lambda>a. (c, Some ''processed''))
                                          (selected_activities E k)) cm)"
    by blast
  have "operations_groups s' = operations_groups s @ (new1 @ new2)
        \<and> map (\<lambda>g. (og_customer_id g, og_status g)) (new1 @ new2)
               = concat (map (\<lambda>(k, c). map (\<lambda>a. (c, Some ''processed''))
                                          (selected_activities E k)) (kc # cm))"
    using n1 n2 kc by simp
  then show ?case by blast
qed

text \<open>
  Claim C5, as amended. For a customer key, the activities selected are exactly the
  legacy activities of that account whose legacy status is 1, the code that the status
  mapping maps to processed; an activity with any other status, status 3 (confirmed)
  included, is not selected. A full run that ends normally inserts one operation group
  per customer and selected activity, in that order, for the customer and with status
  processed, and no other group.
\<close>

theorem status_one_activities_selected:
  "(getCustomerActivities E k = Inr as \<longrightarrow>
      as = selected_activities E k
      \<and> (\<forall>a. a \<in> set as \<longleftrightarrow>
             a \<in> set (activities (legacyData E)) \<and> AccountID a = k \<and> truthy (of_json k)
             \<and> Status a = 1)
      \<and> (\<forall>a \<in> set as. parseActivityStatus (script_of E) (Status a) = Some ''processed''))
   \<and> (seedOperationGroups E s = (Inr (), s') \<longrightarrow>
        (\<exists>new. operations_groups s' = operations_groups s @ new
           \<and> map (\<lambda>g. (og_customer_id g, og_status g)) new
               = concat (map (\<lambda>(k, c). map (\<lambda>a. (c, Some ''processed''))
                                          (selected_activities E k))
                           (getCustomerIdMap E s))))"
proof (intro conjI impI)
  assume "getCustomerActivities E k = Inr as"
  then show sel: "as = selected_activities E k" by (rule getCustomerActivities_selected)
  show "\<forall>a. a \<in> set as \<longleftrightarrow>
             a \<in> set (activities (legacyData E)) \<and> AccountID a = k \<and> truthy (of_json k)
             \<and> Status a = 1"
    unfolding sel by (auto simp: selected_activities_def)
  show "\<forall>a \<in> set as. parseActivityStatus (script_of E) (Status a) = Some ''processed''"
    unfolding sel by (simp add: selected_activities_def parseActivityStatus_def)
next
  assume "seedOperationGroups E s = (Inr (), s')"
  then have "customers_loop E (getCustomerIdMap E s)
               (s\<lparr>customerIdMap := getCustomerIdMap E s, caseIdMap := getCaseIdMap E s\<rparr>)
             = (Inr (), s')"
    by (simp add: seedOperationGroups_def Let_def)
  from customers_loop_groups [OF this]
  show "\<exists>new. operations_groups s' = operations_groups s @ new
           \<and> map (\<lambda>g. (og_customer_id g, og_status g)) new
               = concat (map (\<lambda>(k, c). map (\<lambda>a. (c, Some ''processed''))
                                          (selected_activities E k))
                           (getCustomerIdMap E s))"
    by simp
qed

theorem status_one_activities_selected_witness:
  "getCustomerActivities (env_of Seeder example_data) (Some 42)
     = Inr [act 501 ''D'' 1, act 502 ''T'' 1]
   \<and> selected_activities (env_of Seeder example_data) (Some 42)
     = [act 501 ''D'' 1, act 502 ''T'' 1]
   \<and> act 504 ''D'' 3 \<notin> set [act 501 ''D'' 1, act 502 ''T'' 1]
   \<and> fst (seedOperationGroups (env_of Seeder example_data) example_store) = Inr ()
   \<and> length (operations_groups
         (snd (seedOperationGroups (env_of Seeder example_data) example_store))) = 2"
proof -
  let ?E = "env_of Seeder example_data"
  let ?R = "seedOperationGroups ?E example_store"
  let ?as = "[act 501 ''D'' 1, act 502 ''T'' 1]"
  have ga: "getCustomerActivities ?E (Some 42) = Inr ?as" by code_simp
  have ok: "fst ?R = Inr ()" by code_simp
  have run: "?R = (Inr (), snd ?R)" using ok by (simp add: prod_eq_iff)
  have none: "operations_groups example_store = []" by (simp add: example_store_def)
  have cm: "getCustomerIdMap ?E example_store = [(Some 42, 942)]" by code_simp
  have st: "Status (act 504 ''D'' 3) \<noteq> 1" by (simp add: act_def)
  note c1 = status_one_activities_selected [where E = ?E and k = "Some 42" and as = ?as,
      THEN conjunct1]
  note c1' = c1 [THEN mp, OF ga]
  have sel: "selected_activities ?E (Some 42) = ?as"
    using c1' [THEN conjunct1] by (rule sym)
  have mem: "\<forall>a. a \<in> set ?as \<longleftrightarrow>
             a \<in> set (activities (legacyData ?E)) \<and> AccountID a = Some 42
             \<and> truthy (of_json (Some 42)) \<and> Status a = 1"
    using c1' [THEN conjunct2, THEN conjunct1] .
  from mem st have out: "act 504 ''D'' 3 \<notin> set ?as" by blast
  note c2 = status_one_activities_selected [where E = ?E and s = example_store
      and s' = "snd ?R", THEN conjunct2]
  from c2 run obtain new where new: "operations_groups (snd ?R) = operations_groups example_store @ new"
    "map (\<lambda>g. (og_customer_id g, og_status g)) new
               = concat (map (\<lambda>(k, c). map (\<lambda>a. (c, Some ''processed''))
                                          (selected_activities ?E k))
                           (getCustomerIdMap ?E example_store))"
    by blast
  from new(2) have "length new = 2" unfolding cm using sel
    by (metis (no_types, lifting) append_Nil2 case_prod_conv concat.simps(1) concat.simps(2)
        length_Cons length_map list.map(1) list.map(2) list.size(3) numeral_2_eq_2)
  with new(1) none have len: "length (operations_groups (snd ?R)) = 2" by simp
  show ?thesis using ga sel out ok len by blast
qed

text \<open>
  The claim as stated fails: activity 504 of account 42 has legacy status 3, which the
  mapping calls confirmed, and it is not selected, while the selected activities 501 and
  502 have legacy status 1, which the mapping calls processed.
\<close>

theorem confirmed_activity_not_selected_counterexample:
  "act 504 ''D'' 3 \<in> set (activities (legacyData (env_of Seeder example_data)))
   \<and> AccountID (act 504 ''D'' 3) = Some 42
   \<and> parseActivityStatus Seeder (Status (act 504 ''D'' 3)) = Some ''confirmed''
   \<and> getCustomerActivities (env_of Seeder example_data) (Some 42)
       = Inr [act 501 ''D'' 1, act 502 ''T'' 1]
   \<and> act 504 ''D'' 3 \<notin> set [act 501 ''D'' 1, act 502 ''T'' 1]
   \<and> parseActivityStatus Seeder (Status (act 501 ''D'' 1)) = Some ''processed''"
  by code_simp

subsection \<open>Logs of new case operations and the check before a migration\<close>

lemma new_ops_refl:
  "\<exists>new. (ops::case_operation list) = ops @ new \<and> (\<forall>co \<in> set new. Q co)"
  by simp

lemma createOperationGroup_new_ops:
  assumes run: "createOperationGroup E c a s = (r, s')"
  shows "\<exists>new. cases_operations s' = cases_operations s @ new
           \<and> (\<forall>co \<in> set new. co_logs co = new_logs (script_of E) a)"
proof -
  let ?s1 = "insert_operation_group E (next_uuid s) c a (s\<lparr>next_uuid := Suc (next_uuid s)\<rparr>)"
  have g1: "cases_operations ?s1 = cases_operations s"
    by (simp add: insert_operation_group_def)
  show ?thesis
  proof (cases "script_of E")
    case Migrator
    then have "s' = ?s1" using run by (simp add: createOperationGroup_def uuidv4_def)
    then show ?thesis using g1 by simp
  next
    case Seeder
    obtain r2 s2 where d: "dispatch_transaction_type E (next_uuid s) a ?s1 = (r2, s2)"
      by (cases "dispatch_transaction_type E (next_uuid s) a ?s1")
    then have "s' = s2" using run Seeder
      by (auto simp: createOperationGroup_def uuidv4_def split: sum.splits)
    with dispatch_new_ops [OF d] g1 show ?thesis by auto
  qed
qed

lemma activities_loop_logs:
  assumes "script_of E = Seeder" and "activities_loop E c as s = (r, s')"
  shows "\<exists>new. cases_operations s' = cases_operations s @ new
           \<and> (\<forall>co \<in> set new. co_logs co = ''[]'')"
  using assms(2)
proof (induction as arbitrary: s)
  case Nil
  then show ?case by simp
next
  case (Cons a as)
  obtain r1 s1 where st: "createOperationGroup E c a s = (r1, s1)"
    by (cases "createOperationGroup E c a s")
  from createOperationGroup_new_ops [OF st] assms(1)
  have one: "\<exists>new. cases_operations s1 = cases_operations s @ new
           \<and> (\<forall>co \<in> set new. co_logs co = ''[]'')"
    by (simp add: new_logs_def)
  show ?case
  proof (cases r1)
    case (Inl e)
    then have "s' = s1" using Cons.prems st by simp
    then show ?thesis using one by simp
  next
    case (Inr u)
    then have "activities_loop E c as s1 = (r, s')" using Cons.prems st by simp
    from new_ops_trans [OF one Cons.IH [OF this]] show ?thesis .
  qed
qed

lemma customers_loop_logs:
  assumes "script_of E = Seeder" and "customers_loop E cm s = (r, s')"
  shows "\<exists>new. cases_operations s' = cases_operations s @ new
           \<and> (\<forall>co \<in> set new. co_logs co = ''[]'')"
  using assms(2)
proof (induction cm arbitrary: s)
  case Nil
  then show ?case by simp
next
  case (Cons kc cm)
  obtain k c where kc: "kc = (k, c)" by (cases kc)
  show ?case
  proof (cases "getCustomerActivities E k")
    case (Inl e)
    then have "s' = s" using Cons.prems kc by simp
    then show ?thesis by simp
  next
    case (Inr as)
    obtain r1 s1 where st: "activities_loop E c as s = (r1, s1)"
      by (cases "activities_loop E c as s")
    note one = activities_loop_logs [OF assms(1) st]
    show ?thesis
    proof (cases r1)
      case (Inl e)
      then have "s' = s1" using Cons.prems kc Inr st by simp
      then show ?thesis using one by simp
    next
      case (Inr u)
      then have "customers_loop E cm s1 = (r, s')" using Cons.prems kc \<open>getCustomerActivities E k = Inr as\<close> st by simp
      from new_ops_trans [OF one Cons.IH [OF this]] show ?thesis .
    qed
  qed
qed

lemma seedOperationGroups_logs:
  assumes "script_of E = Seeder" and "seedOperationGroups E s = (r, s')"
  shows "\<exists>new. cases_operations s' = cases_operations s @ new
           \<and> (\<forall>co \<in> set new. co_logs co = ''[]'')"
proof -
  from assms(2) have "customers_loop E (getCustomerIdMap E s)
               (s\<lparr>customerIdMap := getCustomerIdMap E s, caseIdMap := getCaseIdMap E s\<rparr>)
             = (r, s')"
    by (simp add: seedOperationGroups_def Let_def)
  from customers_loop_logs [OF assms(1) this] show ?thesis by simp
qed

lemma find_activity_id:
  "List.find (\<lambda>activity. ActivityID activity = activityId) as = Some a \<Longrightarrow> ActivityID a = activityId"
  by (induction as) (auto split: if_splits)

lemma migrateActivity_logs:
  assumes "script_of E = Migrator" and "migrateActivity E a s = (r, s')"
  shows "\<exists>new. cases_operations s' = cases_operations s @ new
           \<and> (\<forall>co \<in> set new. co_logs co = new_logs Migrator a)"
proof (cases "\<exists>account customerId. AccountID a = Some account
                \<and> map_of (customerIdMap s) (Some account) = Some customerId")
  case False
  then have "s' = s" using assms(2)
    by (auto simp: migrateActivity_def split: option.splits)
  then show ?thesis by simp
next
  case True
  then obtain account customerId where ac: "AccountID a = Some account"
    "map_of (customerIdMap s) (Some account) = Some customerId" by blast
  let ?s1 = "insert_operation_group E (next_uuid s) customerId a (s\<lparr>next_uuid := Suc (next_uuid s)\<rparr>)"
  have cg: "createOperationGroup E customerId a s = (Inr (next_uuid s), ?s1)"
    using assms(1) by (simp add: createOperationGroup_def uuidv4_def)
  have g1: "cases_operations ?s1 = cases_operations s"
    by (simp add: insert_operation_group_def)
  show ?thesis
  proof (cases "getInventoryActivityDetails E a = []")
    case True
    then have "s' = ?s1" using assms(2) ac cg by (simp add: migrateActivity_def)
    then show ?thesis using g1 by simp
  next
    case False
    then have d: "dispatch_transaction_type E (next_uuid s) a ?s1 = (r, s')"
      using assms(2) ac cg by (simp add: migrateActivity_def)
    from dispatch_new_ops [OF d] g1 assms(1) show ?thesis by auto
  qed
qed

lemma load_all_maps_ops: "cases_operations (load_all_maps E s) = cases_operations s"
  by (simp add: load_all_maps_def)

lemma migrate_logs:
  assumes sc: "script_of E = Migrator" and run: "migrate E activityId False s = (r, s')"
  shows \<open>\<exists>new. cases_operations s' = cases_operations s @ new
           \<and> (\<forall>co \<in> set new.
                 co_logs co = ''[{"legacy_activity_id":'' @ toString activityId @ ''}]'')\<close>
proof (cases "List.find (\<lambda>activity. ActivityID activity = activityId) (activities (legacyData E))")
  case None
  then have "s' = s" using run by (simp add: migrate_def)
  then show ?thesis by simp
next
  case (Some a)
  note aid = find_activity_id [OF Some]
  show ?thesis
  proof (cases "validateDependencies E a s = None \<and> findExistingOperationGroup E activityId s = None")
    case False
    then have "s' = s" using run Some by (auto simp: migrate_def split: option.splits if_splits)
    then show ?thesis by simp
  next
    case True
    then have "migrateActivity E a (load_all_maps E s) = (r, s')"
      using run Some by (simp add: migrate_def)
    from migrateActivity_logs [OF sc this] aid show ?thesis
      by (simp add: load_all_maps_ops new_logs_def)
  qed
qed

lemma findExistingOperationGroup_iff:
  "findExistingOperationGroup E activityId s \<noteq> None \<longleftrightarrow>
     (\<exists>og \<in> set (operations_groups s). og_tenant_id og = defaultTenantId E
        \<and> (\<exists>co \<in> set (cases_operations s). co_group_id co = og_id og
              \<and> like_contains (legacy_activity_pattern activityId) (co_logs co)))"
proof -
  have "findExistingOperationGroup E activityId s \<noteq> None
          \<longleftrightarrow> select_stamped_groups E activityId s \<noteq> []"
    by (simp add: findExistingOperationGroup_def split: list.splits)
  also have "\<dots> \<longleftrightarrow> (\<exists>og \<in> set (operations_groups s). og_tenant_id og = defaultTenantId E
        \<and> (\<exists>co \<in> set (cases_operations s). co_group_id co = og_id og
              \<and> like_contains (legacy_activity_pattern activityId) (co_logs co)))"
    by (auto simp: select_stamped_groups_def filter_empty_conv)
  finally show ?thesis .
qed

lemma migrate_found:
  assumes "findExistingOperationGroup E activityId s \<noteq> None"
  shows "snd (migrate E activityId False s) = s"
    and "List.find (\<lambda>activity. ActivityID activity = activityId) (activities (legacyData E))
           = Some a \<Longrightarrow> validateDependencies E a s = None
         \<Longrightarrow> fst (migrate E activityId False s) = Inr ()"
  using assms by (auto simp: migrate_def split: option.splits)

subsection \<open>Rows of a migration and its check\<close>

lemma toString_digits: "set (toString n) \<subseteq> set ''0123456789''"
proof (induction n rule: toString.induct)
  case (1 n)
  have d: "digit n \<in> set ''0123456789''"
    unfolding digit_def by (rule nth_mem) simp
  show ?case
  proof (cases "n < 10")
    case True
    then show ?thesis using d by (subst toString.simps) simp
  next
    case False
    then show ?thesis using d 1 by (subst toString.simps) simp
  qed
qed

lemma toString_not_Nil: "toString n \<noteq> []"
  by (subst toString.simps) simp

lemma like_contains_no_quote:
  "CHR 0x22 \<notin> set cs \<Longrightarrow> \<not> like_contains (CHR 0x22 # ps) cs"
  by (induction cs) auto

lemma like_prefix_quote_digit:
  "\<not> like_prefix (CHR 0x22 # ps) (toString m @ rest)"
proof -
  obtain c cs where cs: "toString m = c # cs" using toString_not_Nil [of m] by (cases "toString m") auto
  then have "c \<in> set ''0123456789''" using toString_digits [of m] by auto
  then have "c \<noteq> CHR 0x22" by auto
  then show ?thesis by (simp add: cs)
qed

lemma stamp_never_found:
  "\<not> like_contains (legacy_activity_pattern n) (new_logs sc a)"
proof (cases sc)
  case Seeder
  then show ?thesis by (simp add: legacy_activity_pattern_def new_logs_def)
next
  case Migrator
  have q: "CHR 0x22 \<notin> set (toString (ActivityID a) @ ''}]'')"
    using toString_digits [of "ActivityID a"] by auto
  show ?thesis
    using Migrator like_prefix_quote_digit [of _ "ActivityID a" "''}]''"]
      like_contains_no_quote [OF q]
    by (simp add: legacy_activity_pattern_def new_logs_def)
qed

text \<open>
  No case operation that the migration of one activity creates is found by its own
  check, whatever the activity and whatever the identifier looked for.
\<close>

lemma migrate_rows_never_found:
  assumes "script_of E = Migrator" and "migrate E activityId False s = (r, s')"
  shows "\<exists>new. cases_operations s' = cases_operations s @ new
           \<and> (\<forall>co \<in> set new. \<not> like_contains (legacy_activity_pattern n) (co_logs co))"
proof (cases "List.find (\<lambda>activity. ActivityID activity = activityId) (activities (legacyData E))")
  case None
  then have "s' = s" using assms(2) by (simp add: migrate_def)
  then show ?thesis by simp
next
  case (Some a)
  show ?thesis
  proof (cases "validateDependencies E a s = None \<and> findExistingOperationGroup E activityId s = None")
    case False
    then have "s' = s" using assms(2) Some
      by (auto simp: migrate_def split: option.splits if_splits)
    then show ?thesis by simp
  next
    case True
    then have "migrateActivity E a (load_all_maps E s) = (r, s')"
      using assms(2) Some by (simp add: migrate_def)
    from migrateActivity_logs [OF assms(1) this] stamp_never_found [of n Migrator a]
    show ?thesis by (auto simp: load_all_maps_ops)
  qed
qed

text \<open>
  Claim C6. The migration of one activity writes the legacy id of the activity into the
  logs of every case operation it creates, and before it processes an activity it looks
  for a case operation whose logs hold that id, to return without creating anything.
  The id is written as a number and looked for in quotes. At the failing input, the
  activity 501 migrated twice into the example store: the first migration creates one
  case operation with the logs \<^verbatim>\<open>[{"legacy_activity_id":501}]\<close>, the check of the
  second migration finds no group for 501, and the second migration returns normally
  with a second group and a second case operation for the same activity.
\<close>

theorem migrate_twice_creates_rows_again:
  \<open>fst (migrate (env_of Migrator small_data) 501 False example_store) = Inr ()
   \<and> map co_logs (cases_operations
       (snd (migrate (env_of Migrator small_data) 501 False example_store)))
     = [''[{"legacy_activity_id":501}]'']
   \<and> legacy_activity_pattern 501 = ''"legacy_activity_id":"501"''
   \<and> findExistingOperationGroup (env_of Migrator small_data) 501
       (snd (migrate (env_of Migrator small_data) 501 False example_store)) = None
   \<and> fst (migrate (env_of Migrator small_data) 501 False
            (snd (migrate (env_of Migrator small_data) 501 False example_store))) = Inr ()
   \<and> length (operations_groups
         (snd (migrate (env_of Migrator small_data) 501 False
                (snd (migrate (env_of Migrator small_data) 501 False example_store))))) = 2
   \<and> map co_logs (cases_operations
         (snd (migrate (env_of Migrator small_data) 501 False
                (snd (migrate (env_of Migrator small_data) 501 False example_store)))))
     = [''[{"legacy_activity_id":501}]'', ''[{"legacy_activity_id":501}]'']\<close>
  by code_simp

end
